theory Spec2Isabelle
  imports Complex_Main "HOL-Library.AList" "HOL-Library.Sublist" "HOL-Library.Multiset"
begin

section \<open>The point ledger of \<^verbatim>\<open>src/index.ts\<close>\<close>

text \<open>
  The class \<^verbatim>\<open>PointSystem\<close> keeps a plain JavaScript object \<^verbatim>\<open>points\<close> from user
  identifiers to \<^verbatim>\<open>PointData\<close> and mirrors it in the file \<^verbatim>\<open>points.json\<close>.

  Conventions of the embedding.
  \<^item> An instant is the time value of a JavaScript \<^verbatim>\<open>Date\<close>: an integer count of
    milliseconds since 1970-01-01T00:00:00Z. An invalid date (time value NaN) is \<open>None\<close>.
  \<^item> A \<^verbatim>\<open>number\<close> holding a score is a mathematical integer. JavaScript numbers are
    doubles; on integers of magnitude below \<open>2 ^ 53\<close> the additions and subtractions the
    program performs are exact, and the embedding covers that range.
  \<^item> The object \<^verbatim>\<open>points\<close> is the list of its own properties in creation order. Its
    prototype is \<^verbatim>\<open>Object.prototype\<close>, so \<^verbatim>\<open>this.points[userId]\<close> also finds what the
    object inherits: the built-in members (\<^verbatim>\<open>toString\<close>, \<^verbatim>\<open>constructor\<close>, \<^verbatim>\<open>__proto__\<close> and
    the others) and the properties that a claim under \<^verbatim>\<open>__proto__\<close> has written on
    \<^verbatim>\<open>Object.prototype\<close> itself. The state records what claims have written on inherited
    objects.
  \<^item> The two clock readings of \<^verbatim>\<open>tryClaimPoints\<close> (one \<^verbatim>\<open>new Date()\<close> inside
    \<^verbatim>\<open>canClaimPoints\<close>, one for the stamp) are arguments of the model.
  \<^item> The file system is reliable: \<^verbatim>\<open>writeFileSync\<close> and \<^verbatim>\<open>readFileSync\<close> do not fail.
    Every call is recorded, so that "no I/O" is a statement about the record.
  \<^item> \<^verbatim>\<open>Date.prototype.toISOString\<close> and \<^verbatim>\<open>JSON.stringify(points, null, 2)\<close> are
    defined in full. The two parsers of the platform, \<^verbatim>\<open>new Date(string)\<close> and
    \<^verbatim>\<open>JSON.parse\<close>, accept more than the program ever writes; the operations take them as
    parameters, and \<open>Date_parse\<close> and \<open>JSON_parse\<close> below are the instances for the texts
    that \<open>toISOString\<close> and \<open>JSON_stringify\<close> produce.
\<close>

subsection \<open>Decimal digits\<close>

definition digit :: "int \<Rightarrow> char" where
  "digit d = char_of (48 + d)"

definition isDigit :: "char \<Rightarrow> bool" where
  "isDigit c = (48 \<le> (of_char c :: int) \<and> (of_char c :: int) \<le> 57)"

definition digitVal :: "char \<Rightarrow> int" where
  "digitVal c = of_char c - 48"

function digits :: "int \<Rightarrow> string" where
  "digits n = (if n < 10 then [digit n] else digits (n div 10) @ [digit (n mod 10)])"
  by pat_completeness auto
termination
  by (relation "measure nat") auto

declare digits.simps [simp del]

definition readInt :: "string \<Rightarrow> int" where
  "readInt s = foldl (\<lambda>a c. 10 * a + digitVal c) 0 s"

definition pad :: "nat \<Rightarrow> int \<Rightarrow> string" where
  "pad k n = replicate (k - length (digits n)) CHR ''0'' @ digits n"

definition showInt :: "int \<Rightarrow> string" where
  "showInt i = (if i < 0 then ''-'' @ digits (- i) else digits i)"

subsection \<open>Dates\<close>

text \<open>
  The civil date of a day number (days since 1970-01-01) in the proleptic Gregorian
  calendar, and back. \<open>div\<close> and \<open>mod\<close> on \<open>int\<close> round towards minus infinity, which
  is what the day arithmetic of ECMAScript does.
\<close>

definition civil_from_days :: "int \<Rightarrow> int \<times> int \<times> int" where
  "civil_from_days z0 =
     (let z = z0 + 719468;
          era = z div 146097;
          doe = z mod 146097;
          yoe = (doe - doe div 1460 + doe div 36524 - doe div 146096) div 365;
          y = yoe + era * 400;
          doy = doe - (365 * yoe + yoe div 4 - yoe div 100);
          mp = (5 * doy + 2) div 153;
          d = doy - (153 * mp + 2) div 5 + 1;
          m = (if mp < 10 then mp + 3 else mp - 9)
      in (if m \<le> 2 then y + 1 else y, m, d))"

definition days_from_civil :: "int \<Rightarrow> int \<Rightarrow> int \<Rightarrow> int" where
  "days_from_civil y0 m d =
     (let y = (if m \<le> 2 then y0 - 1 else y0);
          era = y div 400;
          yoe = y mod 400;
          doy = (153 * (if m > 2 then m - 3 else m + 9) + 2) div 5 + d - 1;
          doe = yoe * 365 + yoe div 4 - yoe div 100 + doy
      in era * 146097 + doe - 719468)"

definition daysInMonth :: "int \<Rightarrow> int \<Rightarrow> int" where
  "daysInMonth y m =
     (if m = 2 then (if y mod 4 = 0 \<and> (y mod 100 \<noteq> 0 \<or> y mod 400 = 0) then 29 else 28)
      else if m = 4 \<or> m = 6 \<or> m = 9 \<or> m = 11 then 30 else 31)"

text \<open>
  \<^verbatim>\<open>Date.prototype.toISOString\<close> of a valid date with time value \<open>t\<close>:
  \<^verbatim>\<open>YYYY-MM-DDTHH:mm:ss.sssZ\<close>, the year written with a sign and six digits outside
  0..9999.
\<close>

definition toISOString :: "int \<Rightarrow> string" where
  "toISOString t =
     (let (y, m, d) = civil_from_days (t div 86400000);
          ms = t mod 86400000;
          year = (if 0 \<le> y \<and> y \<le> 9999 then pad 4 y
                  else (if y < 0 then ''-'' else ''+'') @ pad 6 \<bar>y\<bar>)
      in year @ ''-'' @ pad 2 m @ ''-'' @ pad 2 d @ ''T''
           @ pad 2 (ms div 3600000) @ '':'' @ pad 2 (ms div 60000 mod 60) @ '':''
           @ pad 2 (ms div 1000 mod 60) @ ''.'' @ pad 3 (ms mod 1000) @ ''Z'')"

text \<open>
  The instance of \<^verbatim>\<open>new Date(string).getTime()\<close> on the 24-character form that
  \<open>toISOString\<close> writes for the years 0000..9999. Every other string is answered
  \<open>None\<close> by this instance; the theorems below are stated for an arbitrary parser and
  use the instance only at strings of that form.
\<close>

definition Date_parse :: "string \<Rightarrow> int option" where
  "Date_parse s =
     (if length s = 24 \<and> s ! 4 = CHR ''-'' \<and> s ! 7 = CHR ''-'' \<and> s ! 10 = CHR ''T''
         \<and> s ! 13 = CHR '':'' \<and> s ! 16 = CHR '':'' \<and> s ! 19 = CHR ''.'' \<and> s ! 23 = CHR ''Z''
         \<and> list_all isDigit (take 4 s @ take 2 (drop 5 s) @ take 2 (drop 8 s) @ take 2 (drop 11 s)
              @ take 2 (drop 14 s) @ take 2 (drop 17 s) @ take 3 (drop 20 s))
      then
        (let y = readInt (take 4 s); mo = readInt (take 2 (drop 5 s));
             d = readInt (take 2 (drop 8 s)); h = readInt (take 2 (drop 11 s));
             mi = readInt (take 2 (drop 14 s)); sec = readInt (take 2 (drop 17 s));
             ms = readInt (take 3 (drop 20 s))
         in if 1 \<le> mo \<and> mo \<le> 12 \<and> 1 \<le> d \<and> d \<le> daysInMonth y mo \<and> h \<le> 23 \<and> mi \<le> 59 \<and> sec \<le> 59
            then Some (days_from_civil y mo d * 86400000 + h * 3600000 + mi * 60000 + sec * 1000 + ms)
            else None)
      else None)"

subsection \<open>The data model\<close>

text \<open>\<^verbatim>\<open>CONFIG.POINT_COOLDOWN_HOURS\<close> and \<^verbatim>\<open>CONFIG.MAX_RANKING_DISPLAY\<close>.\<close>

definition POINT_COOLDOWN_HOURS :: rat where
  "POINT_COOLDOWN_HOURS = 24"

definition MAX_RANKING_DISPLAY :: int where
  "MAX_RANKING_DISPLAY = 10"

record PointData =
  score :: int
  lastClaimedAt :: string

type_synonym Points = "(string \<times> PointData) list"

datatype fs_call = ExistsSync | ReadFileSync | WriteFileSync string

text \<open>
  An instance of the class with its surroundings: the private field \<^verbatim>\<open>points\<close>, the
  content of the file at \<^verbatim>\<open>CONFIG.POINTS_FILE\<close> (\<open>None\<close> when the file does not exist),
  the calls made to \<^verbatim>\<open>node:fs\<close> so far, and what the process has written on the objects
  that \<^verbatim>\<open>points\<close> inherits from: \<open>prototype_claims\<close> holds, under the inherited name of
  such an object (\<^verbatim>\<open>__proto__\<close> for \<^verbatim>\<open>Object.prototype\<close> itself), the \<^verbatim>\<open>lastClaimedAt\<close>
  that a granted claim has set on it. Such an object then has the \<^verbatim>\<open>score\<close> NaN, the
  result of \<^verbatim>\<open>undefined + 1\<close>. In a new process the list is empty.
\<close>

record PointSystem =
  points :: Points
  POINTS_FILE :: "string option"
  fs_calls :: "fs_call list"
  prototype_claims :: "(string \<times> string) list"

text \<open>
  The exceptions of the platform that the class lets through, and the outcome of a call
  that returns or throws.
\<close>

datatype exn = SyntaxError | TypeError

datatype 'a outcome = Returns 'a | Throws exn

text \<open>
  What \<^verbatim>\<open>this.points[userId]\<close> can evaluate to when it is truthy: a record stored in
  the ledger; an object inherited under the name given, which is a built-in function or,
  under \<^verbatim>\<open>__proto__\<close>, \<^verbatim>\<open>Object.prototype\<close> itself; or a string, the \<^verbatim>\<open>lastClaimedAt\<close>
  that \<^verbatim>\<open>Object.prototype\<close> holds after a claim under \<^verbatim>\<open>__proto__\<close>. The declared
  result type \<^verbatim>\<open>PointData\<close> is not checked when the program runs.
\<close>

datatype reference = OwnRecord PointData | InheritedObject string | InheritedString string

text \<open>The names of the own properties of \<^verbatim>\<open>Object.prototype\<close>.\<close>

definition Object_prototype_names :: "string list" where
  "Object_prototype_names =
     [''constructor'', ''__defineGetter__'', ''__defineSetter__'', ''hasOwnProperty'',
      ''__lookupGetter__'', ''__lookupSetter__'', ''isPrototypeOf'', ''propertyIsEnumerable'',
      ''toString'', ''valueOf'', ''__proto__'', ''toLocaleString'']"

subsection \<open>Property enumeration\<close>

text \<open>
  \<^verbatim>\<open>Object.entries\<close> and \<^verbatim>\<open>JSON.stringify\<close> enumerate the own properties of an
  ordinary object in the order of ECMAScript's OrdinaryOwnPropertyKeys: the keys that
  are array indices (the canonical decimal form of an integer below \<open>2 ^ 32 - 1\<close>) in
  ascending numeric order, then every other key in creation order.
\<close>

definition arrayIndex :: "string \<Rightarrow> int option" where
  "arrayIndex k =
     (if 0 \<le> readInt k \<and> k = digits (readInt k) \<and> readInt k < 4294967295
      then Some (readInt k) else None)"

definition Object_entries :: "(string \<times> 'v) list \<Rightarrow> (string \<times> 'v) list" where
  "Object_entries ps =
     sort_key (\<lambda>e. the (arrayIndex (fst e))) [e \<leftarrow> ps. arrayIndex (fst e) \<noteq> None]
       @ [e \<leftarrow> ps. arrayIndex (fst e) = None]"

subsection \<open>Arrays\<close>

text \<open>
  \<^verbatim>\<open>Array.prototype.sort(comparefn)\<close> is stable (ECMAScript 2019): elements that the
  comparator does not separate keep their order. For a consistent comparator the result
  is the one stable insertion sort gives. \<^verbatim>\<open>slice(0, end)\<close> counts a negative end
  from the end of the array.
\<close>

fun insert_by :: "('a \<Rightarrow> 'a \<Rightarrow> int) \<Rightarrow> 'a \<Rightarrow> 'a list \<Rightarrow> 'a list" where
  "insert_by cmp x [] = [x]"
| "insert_by cmp x (y # ys) = (if cmp x y \<le> 0 then x # y # ys else y # insert_by cmp x ys)"

definition Array_sort :: "('a \<Rightarrow> 'a \<Rightarrow> int) \<Rightarrow> 'a list \<Rightarrow> 'a list" where
  "Array_sort cmp xs = foldr (insert_by cmp) xs []"

definition Array_slice0 :: "int \<Rightarrow> 'a list \<Rightarrow> 'a list" where
  "Array_slice0 stop xs =
     (let len = int (length xs);
          final = (if stop < 0 then max (len + stop) 0 else min stop len)
      in take (nat final) xs)"

subsection \<open>Serialization\<close>

text \<open>
  \<^verbatim>\<open>JSON.stringify(this.points, null, 2)\<close>: the properties in enumeration order, two
  spaces of indentation per level, \<^verbatim>\<open>{}\<close> for the empty object. \<open>quoteJSON\<close> is
  ECMAScript's QuoteJSONString on strings of code units below 256.
\<close>

definition dquote :: char where
  "dquote = CHR 0x22"

definition backslash :: char where
  "backslash = CHR 0x5C"

definition newline :: char where
  "newline = CHR 0x0A"

definition hexDigit :: "int \<Rightarrow> char" where
  "hexDigit d = (if d < 10 then char_of (48 + d) else char_of (87 + d))"

definition escapeChar :: "char \<Rightarrow> string" where
  "escapeChar c =
     (if c = dquote then [backslash, dquote]
      else if c = backslash then [backslash, backslash]
      else if c = CHR 0x08 then [backslash, CHR ''b'']
      else if c = CHR 0x0C then [backslash, CHR ''f'']
      else if c = CHR 0x0A then [backslash, CHR ''n'']
      else if c = CHR 0x0D then [backslash, CHR ''r'']
      else if c = CHR 0x09 then [backslash, CHR ''t'']
      else if (of_char c :: int) < 32
        then [backslash, CHR ''u'', CHR ''0'', CHR ''0'',
              hexDigit (of_char c div 16), hexDigit (of_char c mod 16)]
      else [c])"

definition quoteJSON :: "string \<Rightarrow> string" where
  "quoteJSON s = dquote # concat (map escapeChar s) @ [dquote]"

definition stringifyPointData :: "PointData \<Rightarrow> string" where
  "stringifyPointData r =
     ''{'' @ [newline] @ ''    '' @ quoteJSON ''score'' @ '': '' @ showInt (score r) @ '','' @ [newline]
       @ ''    '' @ quoteJSON ''lastClaimedAt'' @ '': '' @ quoteJSON (lastClaimedAt r) @ [newline]
       @ ''  }''"

definition stringifyMember :: "string \<times> PointData \<Rightarrow> string" where
  "stringifyMember e = ''  '' @ quoteJSON (fst e) @ '': '' @ stringifyPointData (snd e)"

fun stringifyMembers :: "(string \<times> PointData) list \<Rightarrow> string" where
  "stringifyMembers [] = []"
| "stringifyMembers [e] = stringifyMember e @ [newline]"
| "stringifyMembers (e # es) = stringifyMember e @ '','' @ [newline] @ stringifyMembers es"

definition JSON_stringify :: "Points \<Rightarrow> string" where
  "JSON_stringify ps =
     (case Object_entries ps of
        [] \<Rightarrow> ''{}''
      | es \<Rightarrow> ''{'' @ [newline] @ stringifyMembers es @ ''}'')"

subsection \<open>The operations of \<^verbatim>\<open>PointSystem\<close>\<close>

definition savePoints :: "PointSystem \<Rightarrow> PointSystem" where
  "savePoints s =
     s\<lparr>POINTS_FILE := Some (JSON_stringify (points s)),
       fs_calls := fs_calls s @ [WriteFileSync (JSON_stringify (points s))]\<rparr>"

text \<open>
  What \<^verbatim>\<open>this.points[userId]\<close> finds on \<^verbatim>\<open>Object.prototype\<close> when the ledger has no
  property of its own under the name, given only when it is truthy. Every built-in member
  is a function or an object. After a claim under \<^verbatim>\<open>__proto__\<close>, \<^verbatim>\<open>Object.prototype\<close>
  has a \<^verbatim>\<open>lastClaimedAt\<close>, a string, and a \<^verbatim>\<open>score\<close>, which is NaN and so falsy.
\<close>

definition inheritedTruthy :: "PointSystem \<Rightarrow> string \<Rightarrow> reference option" where
  "inheritedTruthy s userId =
     (if userId \<in> set Object_prototype_names then Some (InheritedObject userId)
      else if userId = ''lastClaimedAt'' then
        (case map_of (prototype_claims s) ''__proto__'' of
           None \<Rightarrow> None
         | Some str \<Rightarrow> (if str \<noteq> [] then Some (InheritedString str) else None))
      else None)"

text \<open>
  \<^verbatim>\<open>if (!this.points[userId])\<close>: an own property comes first, and a stored record is an
  object and so is truthy. Without one, the lookup goes on to \<^verbatim>\<open>Object.prototype\<close>; a
  truthy value found there is returned and nothing is created. Otherwise the assignment
  appends the property.
\<close>

definition getOrCreateUserPoints :: "string \<Rightarrow> PointSystem \<Rightarrow> reference \<times> PointSystem" where
  "getOrCreateUserPoints userId s =
     (case map_of (points s) userId of
        Some r \<Rightarrow> (OwnRecord r, s)
      | None \<Rightarrow>
          (case inheritedTruthy s userId of
             Some v \<Rightarrow> (v, s)
           | None \<Rightarrow>
               (let r = \<lparr>score = 0, lastClaimedAt = ''''\<rparr>
                in (OwnRecord r, s\<lparr>points := AList.update userId r (points s)\<rparr>))))"

text \<open>
  \<^verbatim>\<open>userPoints.lastClaimedAt\<close>, with \<open>None\<close> for \<^verbatim>\<open>undefined\<close>. An inherited object
  has the property once a claim has set it, and otherwise inherits it from
  \<^verbatim>\<open>Object.prototype\<close>, as a string does.
\<close>

fun lastClaimedAtOf :: "PointSystem \<Rightarrow> reference \<Rightarrow> string option" where
  "lastClaimedAtOf s (OwnRecord r) = Some (lastClaimedAt r)"
| "lastClaimedAtOf s (InheritedObject name) =
     (case map_of (prototype_claims s) name of
        Some str \<Rightarrow> Some str
      | None \<Rightarrow> map_of (prototype_claims s) ''__proto__'')"
| "lastClaimedAtOf s (InheritedString str) = map_of (prototype_claims s) ''__proto__''"

text \<open>
  \<open>now\<close> is the reading of \<^verbatim>\<open>new Date()\<close>. The empty string and \<^verbatim>\<open>undefined\<close> are falsy
  and stand for the epoch; a string the platform cannot parse gives an invalid date,
  whose time value NaN makes the comparison false. The quotient of two integers below
  \<open>2 ^ 53\<close> is rounded monotonically and \<open>86400000 / 3600000\<close> is exactly 24, so the
  comparison of doubles decides as the comparison of the exact quotients does.
\<close>

definition canClaimPoints :: "(string \<Rightarrow> int option) \<Rightarrow> int \<Rightarrow> string option \<Rightarrow> bool" where
  "canClaimPoints parseDate now lastClaimedAt' =
     (case (case lastClaimedAt' of
              None \<Rightarrow> Some 0
            | Some str \<Rightarrow> (if str \<noteq> [] then parseDate str else Some 0)) of
        None \<Rightarrow> False
      | Some lastClaimed \<Rightarrow>
          (let hoursSinceLastClaim = rat_of_int (now - lastClaimed) / (1000 * 60 * 60)
           in hoursSinceLastClaim \<ge> POINT_COOLDOWN_HOURS))"

text \<open>
  \<open>now\<close> is the clock reading inside \<open>canClaimPoints\<close>, \<open>stamp\<close> the later reading of
  \<^verbatim>\<open>new Date().toISOString()\<close>, made only on the eligible branch. \<^verbatim>\<open>userPoints\<close> is a
  reference. When it refers to a stored record, the two assignments change the ledger's
  entry. When it refers to an inherited object, they set the properties on that object:
  its \<^verbatim>\<open>score\<close> becomes NaN, and the ledger stays as it is. When it is a string, the
  first assignment throws a \<^verbatim>\<open>TypeError\<close> (the body of a class is strict code), before
  anything has changed.
\<close>

definition tryClaimPoints ::
    "(string \<Rightarrow> int option) \<Rightarrow> int \<Rightarrow> int \<Rightarrow> string \<Rightarrow> PointSystem
       \<Rightarrow> bool outcome \<times> PointSystem" where
  "tryClaimPoints parseDate now stamp userId s =
     (let (userPoints, s1) = getOrCreateUserPoints userId s
      in if canClaimPoints parseDate now (lastClaimedAtOf s1 userPoints)
         then
           (case userPoints of
              OwnRecord r \<Rightarrow>
                (let r' = r\<lparr>score := score r + 1, lastClaimedAt := toISOString stamp\<rparr>;
                     s2 = s1\<lparr>points := AList.update userId r' (points s1)\<rparr>
                 in (Returns True, savePoints s2))
            | InheritedObject name \<Rightarrow>
                (let s2 = s1\<lparr>prototype_claims :=
                               AList.update name (toISOString stamp) (prototype_claims s1)\<rparr>
                 in (Returns True, savePoints s2))
            | InheritedString str \<Rightarrow> (Throws TypeError, s1))
         else (Returns False, s1))"

text \<open>
  The comparator is \<^verbatim>\<open>(a, b) => b[1].score - a[1].score\<close>. The array that is sorted in
  place is the fresh one \<^verbatim>\<open>Object.entries\<close> returns.
\<close>

definition getTopUsers :: "int \<Rightarrow> PointSystem \<Rightarrow> (string \<times> PointData) list \<times> PointSystem" where
  "getTopUsers limit s =
     (Array_slice0 limit
        (Array_sort (\<lambda>a b. score (snd b) - score (snd a)) (Object_entries (points s))),
      s)"

subsection \<open>Deserialization\<close>

text \<open>
  The values \<^verbatim>\<open>JSON.parse\<close> returns. A number is the rational its literal denotes.
\<close>

datatype json = JNull | JBool bool | JNumber rat | JString string
  | JArray "json list" | JObject "(string \<times> json) list"

text \<open>
  \<open>JSON_parse\<close> is the instance of \<^verbatim>\<open>JSON.parse\<close> on the texts built from objects,
  arrays, strings of code units below 256, integer literals and the three literal names,
  with any JSON whitespace between them. A later member with the key of an earlier one
  replaces its value and keeps its place, as property assignment does. On a text outside
  that fragment (a number with a fraction or an exponent, an escape above \<^verbatim>\<open>\u00ff\<close>)
  the instance answers \<open>None\<close>; the theorems below are stated for an arbitrary parser and
  use the instance only inside the fragment.
\<close>

datatype token = LBrace | RBrace | LBracket | RBracket | Colon | Comma
  | TString string | TNumber int | TTrue | TFalse | TNull

definition hexVal :: "char \<Rightarrow> int option" where
  "hexVal c =
     (let n = (of_char c :: int)
      in if 48 \<le> n \<and> n \<le> 57 then Some (n - 48)
         else if 97 \<le> n \<and> n \<le> 102 then Some (n - 87)
         else if 65 \<le> n \<and> n \<le> 70 then Some (n - 55)
         else None)"

definition unescapeChar :: "char \<Rightarrow> char option" where
  "unescapeChar e =
     (if e = dquote then Some dquote
      else if e = backslash then Some backslash
      else if e = CHR ''/'' then Some CHR ''/''
      else if e = CHR ''b'' then Some (CHR 0x08)
      else if e = CHR ''f'' then Some (CHR 0x0C)
      else if e = CHR ''n'' then Some (CHR 0x0A)
      else if e = CHR ''r'' then Some (CHR 0x0D)
      else if e = CHR ''t'' then Some (CHR 0x09)
      else None)"

definition unicodeEscape :: "char \<Rightarrow> char \<Rightarrow> char \<Rightarrow> char \<Rightarrow> char option" where
  "unicodeEscape a b c d =
     (case (hexVal a, hexVal b, hexVal c, hexVal d) of
        (Some h3, Some h2, Some h1, Some h0) \<Rightarrow>
          (if h3 = 0 \<and> h2 = 0 then Some (char_of (16 * h1 + h0)) else None)
      | _ \<Rightarrow> None)"

definition consChar :: "char \<Rightarrow> (string \<times> string) option \<Rightarrow> (string \<times> string) option" where
  "consChar c r = map_option (\<lambda>(s, rest). (c # s, rest)) r"

fun lexString :: "string \<Rightarrow> (string \<times> string) option" where
  "lexString [] = None"
| "lexString (c # cs) =
     (if c = dquote then Some ([], cs)
      else if c = backslash then
        (case cs of
           [] \<Rightarrow> None
         | e # cs1 \<Rightarrow>
             (if e = CHR ''u'' then
                (case cs1 of
                   a # b # c2 # d # cs2 \<Rightarrow>
                     (case unicodeEscape a b c2 d of
                        None \<Rightarrow> None
                      | Some x \<Rightarrow> consChar x (lexString cs2))
                 | _ \<Rightarrow> None)
              else
                (case unescapeChar e of
                   None \<Rightarrow> None
                 | Some x \<Rightarrow> consChar x (lexString cs1))))
      else if (of_char c :: int) < 32 then None
      else consChar c (lexString cs))"

lemma lexString_shorter: "lexString cs = Some (s, rest) \<Longrightarrow> length rest < length cs"
proof (induction cs arbitrary: s rest rule: lexString.induct)
  case 1
  then show ?case by simp
next
  case (2 c cs)
  then show ?case
    by (auto simp: consChar_def split: if_splits list.splits option.splits) fastforce+
qed

definition isWhitespace :: "char \<Rightarrow> bool" where
  "isWhitespace c = (c = CHR '' '' \<or> c = CHR 0x09 \<or> c = CHR 0x0A \<or> c = CHR 0x0D)"

definition consToken :: "token \<Rightarrow> token list option \<Rightarrow> token list option" where
  "consToken t r = map_option (Cons t) r"

definition numberEnd :: "string \<Rightarrow> bool" where
  "numberEnd rest = (case rest of [] \<Rightarrow> True | c # _ \<Rightarrow> c \<noteq> CHR ''.'' \<and> c \<noteq> CHR ''e'' \<and> c \<noteq> CHR ''E'')"

definition lexNat :: "string \<Rightarrow> (int \<times> string) option" where
  "lexNat cs =
     (let ds = takeWhile isDigit cs; rest = dropWhile isDigit cs
      in if ds \<noteq> [] \<and> ds = digits (readInt ds) \<and> numberEnd rest then Some (readInt ds, rest) else None)"

lemma lexNat_shorter:
  assumes "lexNat cs = Some (n, rest)"
  shows "length rest < length cs"
proof -
  from assms have r: "rest = dropWhile isDigit cs" and d: "takeWhile isDigit cs \<noteq> []"
    unfolding lexNat_def Let_def by (simp_all only: split: if_splits) auto
  have "length (takeWhile isDigit cs) + length (dropWhile isDigit cs) = length cs"
    by (metis length_append takeWhile_dropWhile_id)
  with r d show ?thesis by (cases "takeWhile isDigit cs") auto
qed

function tokenize :: "string \<Rightarrow> token list option" where
  "tokenize [] = Some []"
| "tokenize (c # cs) =
     (if isWhitespace c then tokenize cs
      else if c = CHR ''{'' then consToken LBrace (tokenize cs)
      else if c = CHR ''}'' then consToken RBrace (tokenize cs)
      else if c = CHR ''['' then consToken LBracket (tokenize cs)
      else if c = CHR '']'' then consToken RBracket (tokenize cs)
      else if c = CHR '':'' then consToken Colon (tokenize cs)
      else if c = CHR '','' then consToken Comma (tokenize cs)
      else if c = dquote then
        (case lexString cs of
           None \<Rightarrow> None
         | Some (s, rest) \<Rightarrow> consToken (TString s) (tokenize rest))
      else if c = CHR ''-'' then
        (case lexNat cs of
           None \<Rightarrow> None
         | Some (n, rest) \<Rightarrow> consToken (TNumber (- n)) (tokenize rest))
      else if isDigit c then
        (case lexNat (c # cs) of
           None \<Rightarrow> None
         | Some (n, rest) \<Rightarrow> consToken (TNumber n) (tokenize rest))
      else if take 4 (c # cs) = ''true'' then consToken TTrue (tokenize (drop 3 cs))
      else if take 5 (c # cs) = ''false'' then consToken TFalse (tokenize (drop 4 cs))
      else if take 4 (c # cs) = ''null'' then consToken TNull (tokenize (drop 3 cs))
      else None)"
  by pat_completeness auto
termination
  by (relation "measure length") (auto dest: lexString_shorter lexNat_shorter)

function parseValue :: "token list \<Rightarrow> (json \<times> token list) option"
  and parseMembers :: "(string \<times> json) list \<Rightarrow> token list \<Rightarrow> (json \<times> token list) option"
  and parseElements :: "json list \<Rightarrow> token list \<Rightarrow> (json \<times> token list) option" where
  "parseValue [] = None"
| "parseValue (t # ts) =
     (case t of
        TString s \<Rightarrow> Some (JString s, ts)
      | TNumber n \<Rightarrow> Some (JNumber (of_int n), ts)
      | TTrue \<Rightarrow> Some (JBool True, ts)
      | TFalse \<Rightarrow> Some (JBool False, ts)
      | TNull \<Rightarrow> Some (JNull, ts)
      | LBrace \<Rightarrow>
          (case ts of
             RBrace # ts' \<Rightarrow> Some (JObject [], ts')
           | _ \<Rightarrow> parseMembers [] ts)
      | LBracket \<Rightarrow>
          (case ts of
             RBracket # ts' \<Rightarrow> Some (JArray [], ts')
           | _ \<Rightarrow> parseElements [] ts)
      | _ \<Rightarrow> None)"
| "parseMembers acc ts =
     (case ts of
        TString k # Colon # ts1 \<Rightarrow>
          (case parseValue ts1 of
             None \<Rightarrow> None
           | Some (v, rest) \<Rightarrow>
               (if length rest < length ts1 then
                  (case rest of
                     RBrace # rest' \<Rightarrow> Some (JObject (AList.update k v acc), rest')
                   | Comma # rest' \<Rightarrow> parseMembers (AList.update k v acc) rest'
                   | _ \<Rightarrow> None)
                else None))
      | _ \<Rightarrow> None)"
| "parseElements acc ts =
     (case parseValue ts of
        None \<Rightarrow> None
      | Some (v, rest) \<Rightarrow>
          (if length rest < length ts then
             (case rest of
                RBracket # rest' \<Rightarrow> Some (JArray (acc @ [v]), rest')
              | Comma # rest' \<Rightarrow> parseElements (acc @ [v]) rest'
              | _ \<Rightarrow> None)
           else None))"
  by pat_completeness auto
termination
  by (relation "measure (\<lambda>x. case x of Inl ts \<Rightarrow> 2 * length ts
        | Inr (Inl (acc, ts)) \<Rightarrow> 2 * length ts + 1 | Inr (Inr (acc, ts)) \<Rightarrow> 2 * length ts + 1)") auto

declare parseMembers.simps [simp del] parseElements.simps [simp del]

definition JSON_parse :: "string \<Rightarrow> json option" where
  "JSON_parse text =
     (case tokenize text of
        None \<Rightarrow> None
      | Some ts \<Rightarrow> (case parseValue ts of Some (v, []) \<Rightarrow> Some v | _ \<Rightarrow> None))"

text \<open>
  \<^verbatim>\<open>this.points = JSON.parse(...)\<close> is an unchecked cast to \<^verbatim>\<open>Points\<close>. \<open>asPoints\<close>
  reads a parsed value at that type: an object whose properties are all records of the
  shape \<^verbatim>\<open>{ score, lastClaimedAt }\<close> that \<open>getOrCreateUserPoints\<close> creates, with an
  integral score.
\<close>

fun asPointData :: "json \<Rightarrow> PointData option" where
  "asPointData (JObject [(k1, JNumber n), (k2, JString t)]) =
     (if k1 = ''score'' \<and> k2 = ''lastClaimedAt'' \<and> rat_of_int \<lfloor>n\<rfloor> = n
      then Some \<lparr>score = \<lfloor>n\<rfloor>, lastClaimedAt = t\<rparr>
      else None)"
| "asPointData _ = None"

fun asPoints :: "json \<Rightarrow> Points option" where
  "asPoints (JObject ms) = those (map (\<lambda>(k, v). map_option (Pair k) (asPointData v)) ms)"
| "asPoints _ = None"

text \<open>
  The outcomes of running \<^verbatim>\<open>loadPoints\<close> (and with it the constructor):
  \<^item> \<open>Threw\<close>: \<^verbatim>\<open>JSON.parse\<close> raised its \<^verbatim>\<open>SyntaxError\<close>, which nothing catches;
  \<^item> \<open>Loaded\<close>: it returned, and \<^verbatim>\<open>points\<close> holds a value of type \<^verbatim>\<open>Points\<close>;
  \<^item> \<open>LoadedUntyped\<close>: it returned as well, and \<^verbatim>\<open>points\<close> holds the given value, which
    is not of that type. The program runs on; the model does not follow it further.
\<close>

datatype load_result = Threw exn | Loaded PointSystem | LoadedUntyped json

definition loadPoints :: "(string \<Rightarrow> json option) \<Rightarrow> PointSystem \<Rightarrow> load_result" where
  "loadPoints parseJSON s =
     (let s1 = s\<lparr>fs_calls := fs_calls s @ [ExistsSync]\<rparr>
      in case POINTS_FILE s of
           None \<Rightarrow> Loaded s1
         | Some text \<Rightarrow>
             (let s2 = s1\<lparr>fs_calls := fs_calls s1 @ [ReadFileSync]\<rparr>
              in case parseJSON text of
                   None \<Rightarrow> Threw SyntaxError
                 | Some j \<Rightarrow>
                     (case asPoints j of
                        Some ps \<Rightarrow> Loaded (s2\<lparr>points := ps\<rparr>)
                      | None \<Rightarrow> LoadedUntyped j)))"

text \<open>
  \<^verbatim>\<open>new PointSystem()\<close> in a process whose \<^verbatim>\<open>points.json\<close> has the given content:
  the field initializer \<^verbatim>\<open>points = {}\<close>, then \<^verbatim>\<open>loadPoints\<close>.
\<close>

definition new_PointSystem :: "(string \<Rightarrow> json option) \<Rightarrow> string option \<Rightarrow> load_result" where
  "new_PointSystem parseJSON content =
     loadPoints parseJSON \<lparr>points = [], POINTS_FILE = content, fs_calls = [], prototype_claims = []\<rparr>"

text \<open>
  Calls of \<open>getOrCreateUserPoints\<close> one after the other, as the \<^verbatim>\<open>mypoints\<close> command
  makes them, with no claim in between.
\<close>

definition ensureAll :: "string list \<Rightarrow> PointSystem \<Rightarrow> PointSystem" where
  "ensureAll userIds s = foldl (\<lambda>s' userId. snd (getOrCreateUserPoints userId s')) s userIds"

text \<open>
  The calls a host can make on a constructed \<^verbatim>\<open>PointSystem\<close>, and the state each
  leaves. The arguments of \<open>TryClaimPoints\<close> are the identifier and the two clock
  readings.
\<close>

datatype call = GetOrCreateUserPoints string | TryClaimPoints string int int | GetTopUsers int

fun perform :: "(string \<Rightarrow> int option) \<Rightarrow> call \<Rightarrow> PointSystem \<Rightarrow> PointSystem" where
  "perform parseDate (GetOrCreateUserPoints userId) s = snd (getOrCreateUserPoints userId s)"
| "perform parseDate (TryClaimPoints userId now stamp) s = snd (tryClaimPoints parseDate now stamp userId s)"
| "perform parseDate (GetTopUsers limit) s = snd (getTopUsers limit s)"

definition performAll :: "(string \<Rightarrow> int option) \<Rightarrow> call list \<Rightarrow> PointSystem \<Rightarrow> PointSystem" where
  "performAll parseDate calls s = foldl (\<lambda>s' c. perform parseDate c s') s calls"

definition scoresNonNegative :: "PointSystem \<Rightarrow> bool" where
  "scoresNonNegative s = list_all (\<lambda>e. 0 \<le> score (snd e)) (points s)"

text \<open>
  What the serialization of a ledger denotes: the value \<^verbatim>\<open>JSON.parse\<close> is to return for
  it, and the tokens of its text.
\<close>

definition jsonOfPointData :: "PointData \<Rightarrow> json" where
  "jsonOfPointData r =
     JObject [(''score'', JNumber (rat_of_int (score r))), (''lastClaimedAt'', JString (lastClaimedAt r))]"

definition jsonOfMember :: "string \<times> PointData \<Rightarrow> string \<times> json" where
  "jsonOfMember e = (fst e, jsonOfPointData (snd e))"

definition tokensOfPointData :: "PointData \<Rightarrow> token list" where
  "tokensOfPointData r =
     [LBrace, TString ''score'', Colon, TNumber (score r), Comma,
      TString ''lastClaimedAt'', Colon, TString (lastClaimedAt r), RBrace]"

definition tokensOfMember :: "string \<times> PointData \<Rightarrow> token list" where
  "tokensOfMember e = TString (fst e) # Colon # tokensOfPointData (snd e)"

fun tokensOfMembers :: "(string \<times> PointData) list \<Rightarrow> token list" where
  "tokensOfMembers [] = []"
| "tokensOfMembers [e] = tokensOfMember e"
| "tokensOfMembers (e # es) = tokensOfMember e @ Comma # tokensOfMembers es"

section \<open>Properties\<close>

subsection \<open>Lookup and update of properties\<close>

lemma update_absent: "map_of al k = None \<Longrightarrow> AList.update k v al = al @ [(k, v)]"
  by (induction al) auto

lemma inheritedTruthy_not_own: "inheritedTruthy s userId \<noteq> Some (OwnRecord r)"
  by (simp add: inheritedTruthy_def split: option.splits)

lemma inheritedTruthy_empty: "inheritedTruthy s '''' = None"
  by (simp add: inheritedTruthy_def Object_prototype_names_def)

lemma inheritedTruthy_fresh:
  assumes "userId \<notin> set Object_prototype_names"
    and "userId \<noteq> ''lastClaimedAt'' \<or> map_of (prototype_claims s) ''__proto__'' = None"
  shows "inheritedTruthy s userId = None"
  using assms by (auto simp: inheritedTruthy_def)

lemma inheritedTruthy_cong:
  "prototype_claims s' = prototype_claims s \<Longrightarrow> inheritedTruthy s' userId = inheritedTruthy s userId"
  by (simp add: inheritedTruthy_def)

lemma getOrCreate_present:
  assumes "map_of (points s) userId = Some r"
  shows "getOrCreateUserPoints userId s = (OwnRecord r, s)"
  using assms by (simp add: getOrCreateUserPoints_def)

lemma getOrCreate_inherited:
  assumes "map_of (points s) userId = None" and "inheritedTruthy s userId = Some v"
  shows "getOrCreateUserPoints userId s = (v, s)"
  using assms by (simp add: getOrCreateUserPoints_def)

lemma getOrCreate_absent:
  assumes "map_of (points s) userId = None" and "inheritedTruthy s userId = None"
  shows "getOrCreateUserPoints userId s =
           (OwnRecord \<lparr>score = 0, lastClaimedAt = ''''\<rparr>,
            s\<lparr>points := points s @ [(userId, \<lparr>score = 0, lastClaimedAt = ''''\<rparr>)]\<rparr>)"
  using assms by (simp add: getOrCreateUserPoints_def update_absent Let_def)

lemma getOrCreate_cases:
  obtains (present) r where "map_of (points s) userId = Some r"
      and "getOrCreateUserPoints userId s = (OwnRecord r, s)"
  | (inherited) v where "map_of (points s) userId = None"
      and "inheritedTruthy s userId = Some v"
      and "\<And>r. v \<noteq> OwnRecord r"
      and "getOrCreateUserPoints userId s = (v, s)"
  | (absent) "map_of (points s) userId = None"
      and "inheritedTruthy s userId = None"
      and "getOrCreateUserPoints userId s =
             (OwnRecord \<lparr>score = 0, lastClaimedAt = ''''\<rparr>,
              s\<lparr>points := points s @ [(userId, \<lparr>score = 0, lastClaimedAt = ''''\<rparr>)]\<rparr>)"
proof (cases "map_of (points s) userId")
  case (Some r)
  then show ?thesis using present getOrCreate_present by blast
next
  case None
  show ?thesis
  proof (cases "inheritedTruthy s userId")
    case n: None
    with None show ?thesis using absent getOrCreate_absent by blast
  next
    case (Some v)
    moreover from Some have "\<And>r. v \<noteq> OwnRecord r"
      using inheritedTruthy_not_own[of s userId] by auto
    ultimately show ?thesis using None inherited getOrCreate_inherited by blast
  qed
qed

lemma getOrCreate_others:
  "k \<noteq> userId \<Longrightarrow> map_of (points (snd (getOrCreateUserPoints userId s))) k = map_of (points s) k"
  by (cases rule: getOrCreate_cases[of s userId])
    (simp_all add: map_add_def split: option.splits)

lemma getOrCreate_keeps:
  assumes "map_of (points s) k = Some r"
  shows "map_of (points (snd (getOrCreateUserPoints userId s))) k = Some r"
proof (cases "k = userId")
  case True
  with assms show ?thesis by (simp add: getOrCreate_present)
next
  case False
  with assms show ?thesis by (simp add: getOrCreate_others)
qed

lemma getOrCreate_own:
  assumes "fst (getOrCreateUserPoints userId s) = OwnRecord r"
  shows "map_of (points (snd (getOrCreateUserPoints userId s))) userId = Some r"
proof (cases rule: getOrCreate_cases[of s userId])
  case (present r')
  with assms show ?thesis by simp
next
  case (inherited v)
  with assms show ?thesis by simp
next
  case absent
  with assms show ?thesis by (simp add: map_add_def)
qed

lemma getOrCreate_not_own:
  assumes "\<And>r. fst (getOrCreateUserPoints userId s) \<noteq> OwnRecord r"
  shows "map_of (points s) userId = None
       \<and> inheritedTruthy s userId = Some (fst (getOrCreateUserPoints userId s))
       \<and> snd (getOrCreateUserPoints userId s) = s"
proof (cases rule: getOrCreate_cases[of s userId])
  case (present r')
  with assms[of r'] show ?thesis by simp
next
  case (inherited v)
  then show ?thesis by simp
next
  case absent
  with assms[of "\<lparr>score = 0, lastClaimedAt = []\<rparr>"] show ?thesis by simp
qed

lemma getOrCreate_env:
  "POINTS_FILE (snd (getOrCreateUserPoints userId s)) = POINTS_FILE s
   \<and> fs_calls (snd (getOrCreateUserPoints userId s)) = fs_calls s
   \<and> prototype_claims (snd (getOrCreateUserPoints userId s)) = prototype_claims s"
  by (cases rule: getOrCreate_cases[of s userId]) simp_all

lemma ensureAll_keeps:
  "map_of (points s) k = Some r \<Longrightarrow> map_of (points (ensureAll userIds s)) k = Some r"
  unfolding ensureAll_def
  by (induction userIds arbitrary: s) (simp_all add: getOrCreate_keeps)

lemma getOrCreate_twice:
  "getOrCreateUserPoints userId (snd (getOrCreateUserPoints userId s))
     = (fst (getOrCreateUserPoints userId s), snd (getOrCreateUserPoints userId s))"
proof (cases rule: getOrCreate_cases[of s userId])
  case (present r)
  then show ?thesis by (simp add: getOrCreate_present)
next
  case (inherited v)
  then show ?thesis by (simp add: getOrCreate_inherited)
next
  case absent
  then show ?thesis by (simp add: getOrCreate_present map_add_def)
qed

lemma ensureAll_same:
  "ensureAll (userId # replicate n userId) s = snd (getOrCreateUserPoints userId s)"
proof (induction n arbitrary: s)
  case 0
  show ?case by (simp add: ensureAll_def)
next
  case (Suc n)
  have "ensureAll (userId # replicate (Suc n) userId) s
          = ensureAll (userId # replicate n userId) (snd (getOrCreateUserPoints userId s))"
    by (simp add: ensureAll_def)
  also have "\<dots> = snd (getOrCreateUserPoints userId (snd (getOrCreateUserPoints userId s)))"
    by (rule Suc.IH)
  also have "\<dots> = snd (getOrCreateUserPoints userId s)"
    by (simp add: getOrCreate_twice)
  finally show ?case .
qed

subsection \<open>Creation on first access\<close>

text \<open>
  Claim C5. For an identifier that has no record and names nothing that the ledger
  inherits, \<open>getOrCreateUserPoints\<close> creates the record \<^verbatim>\<open>{ score: 0, lastClaimedAt: '' }\<close>
  and appends it to the ledger. For an identifier that has no record and names an
  inherited value that is truthy, it creates nothing and returns the inherited value.
  It returns the record of an identifier that has one and leaves the whole state as it
  is. For every identifier, a second call returns what the first returned and changes
  nothing, calls for one identifier leave the state the first of them made, and after
  any number of calls, for whatever identifiers, every record that existed is still
  there with the same score and the same claim time. Nothing is inherited under an
  identifier that is not the name of a member of \<^verbatim>\<open>Object.prototype\<close>, unless it is
  \<^verbatim>\<open>lastClaimedAt\<close> after a claim under \<^verbatim>\<open>__proto__\<close>.
\<close>

theorem getOrCreateUserPoints_idempotent:
  "(map_of (points s) userId = None \<and> inheritedTruthy s userId = None \<longrightarrow>
      getOrCreateUserPoints userId s =
        (OwnRecord \<lparr>score = 0, lastClaimedAt = ''''\<rparr>,
         s\<lparr>points := points s @ [(userId, \<lparr>score = 0, lastClaimedAt = ''''\<rparr>)]\<rparr>))
   \<and> (\<forall>v. map_of (points s) userId = None \<and> inheritedTruthy s userId = Some v \<longrightarrow>
         getOrCreateUserPoints userId s = (v, s) \<and> (\<forall>r. v \<noteq> OwnRecord r))
   \<and> (\<forall>r. map_of (points s) userId = Some r \<longrightarrow>
         getOrCreateUserPoints userId s = (OwnRecord r, s))
   \<and> getOrCreateUserPoints userId (snd (getOrCreateUserPoints userId s))
        = (fst (getOrCreateUserPoints userId s), snd (getOrCreateUserPoints userId s))
   \<and> (\<forall>n. ensureAll (replicate (Suc n) userId) s = snd (getOrCreateUserPoints userId s))
   \<and> (\<forall>userIds k r. map_of (points s) k = Some r \<longrightarrow>
          map_of (points (ensureAll userIds s)) k = Some r)
   \<and> (userId \<notin> set Object_prototype_names
        \<and> (userId \<noteq> ''lastClaimedAt'' \<or> map_of (prototype_claims s) ''__proto__'' = None) \<longrightarrow>
          inheritedTruthy s userId = None)"
proof (intro conjI allI impI)
  show "getOrCreateUserPoints userId (snd (getOrCreateUserPoints userId s))
        = (fst (getOrCreateUserPoints userId s), snd (getOrCreateUserPoints userId s))"
    by (rule getOrCreate_twice)
next
  fix n
  show "ensureAll (replicate (Suc n) userId) s = snd (getOrCreateUserPoints userId s)"
    using ensureAll_same[of userId n s] by simp
next
  show "inheritedTruthy s userId = None"
    if "userId \<notin> set Object_prototype_names
        \<and> (userId \<noteq> ''lastClaimedAt'' \<or> map_of (prototype_claims s) ''__proto__'' = None)"
    using that inheritedTruthy_fresh[of userId s] by blast
next
  fix v r
  assume "map_of (points s) userId = None \<and> inheritedTruthy s userId = Some v"
  then show "v \<noteq> OwnRecord r"
    using inheritedTruthy_not_own[of s userId r] by auto
qed (simp_all add: getOrCreate_absent getOrCreate_present getOrCreate_inherited ensureAll_keeps)

lemma inheritedTruthy_samples:
  "inheritedTruthy \<lparr>points = [(''41'', \<lparr>score = 3, lastClaimedAt = ''2024-01-01T00:00:00.000Z''\<rparr>)],
                    POINTS_FILE = None, fs_calls = [], prototype_claims = []\<rparr> ''42'' = None"
  "inheritedTruthy \<lparr>points = [(''41'', \<lparr>score = 3, lastClaimedAt = ''2024-01-01T00:00:00.000Z''\<rparr>)],
                    POINTS_FILE = None, fs_calls = [], prototype_claims = []\<rparr> ''valueOf''
     = Some (InheritedObject ''valueOf'')"
  by code_simp+

theorem getOrCreateUserPoints_idempotent_witness:
  "map_of (points \<lparr>points = [(''41'', \<lparr>score = 3, lastClaimedAt = ''2024-01-01T00:00:00.000Z''\<rparr>)],
                   POINTS_FILE = None, fs_calls = [], prototype_claims = []\<rparr>) ''42'' = None
   \<and> getOrCreateUserPoints ''42''
        \<lparr>points = [(''41'', \<lparr>score = 3, lastClaimedAt = ''2024-01-01T00:00:00.000Z''\<rparr>)],
         POINTS_FILE = None, fs_calls = [], prototype_claims = []\<rparr>
      = (OwnRecord \<lparr>score = 0, lastClaimedAt = ''''\<rparr>,
         \<lparr>points = [(''41'', \<lparr>score = 3, lastClaimedAt = ''2024-01-01T00:00:00.000Z''\<rparr>),
                    (''42'', \<lparr>score = 0, lastClaimedAt = ''''\<rparr>)],
          POINTS_FILE = None, fs_calls = [], prototype_claims = []\<rparr>)
   \<and> getOrCreateUserPoints ''valueOf''
        \<lparr>points = [(''41'', \<lparr>score = 3, lastClaimedAt = ''2024-01-01T00:00:00.000Z''\<rparr>)],
         POINTS_FILE = None, fs_calls = [], prototype_claims = []\<rparr>
      = (InheritedObject ''valueOf'',
         \<lparr>points = [(''41'', \<lparr>score = 3, lastClaimedAt = ''2024-01-01T00:00:00.000Z''\<rparr>)],
          POINTS_FILE = None, fs_calls = [], prototype_claims = []\<rparr>)
   \<and> getOrCreateUserPoints ''41''
        \<lparr>points = [(''41'', \<lparr>score = 3, lastClaimedAt = ''2024-01-01T00:00:00.000Z''\<rparr>)],
         POINTS_FILE = None, fs_calls = [], prototype_claims = []\<rparr>
      = (OwnRecord \<lparr>score = 3, lastClaimedAt = ''2024-01-01T00:00:00.000Z''\<rparr>,
         \<lparr>points = [(''41'', \<lparr>score = 3, lastClaimedAt = ''2024-01-01T00:00:00.000Z''\<rparr>)],
          POINTS_FILE = None, fs_calls = [], prototype_claims = []\<rparr>)
   \<and> map_of (points (ensureAll [''42'', ''41'', ''42'']
        \<lparr>points = [(''41'', \<lparr>score = 3, lastClaimedAt = ''2024-01-01T00:00:00.000Z''\<rparr>)],
         POINTS_FILE = None, fs_calls = [], prototype_claims = []\<rparr>)) ''41''
      = Some \<lparr>score = 3, lastClaimedAt = ''2024-01-01T00:00:00.000Z''\<rparr>"
  using getOrCreateUserPoints_idempotent
    [of "\<lparr>points = [(''41'', \<lparr>score = 3, lastClaimedAt = ''2024-01-01T00:00:00.000Z''\<rparr>)],
          POINTS_FILE = None, fs_calls = [], prototype_claims = []\<rparr>" "''42''"]
    getOrCreateUserPoints_idempotent
    [of "\<lparr>points = [(''41'', \<lparr>score = 3, lastClaimedAt = ''2024-01-01T00:00:00.000Z''\<rparr>)],
          POINTS_FILE = None, fs_calls = [], prototype_claims = []\<rparr>" "''valueOf''"]
    getOrCreateUserPoints_idempotent
    [of "\<lparr>points = [(''41'', \<lparr>score = 3, lastClaimedAt = ''2024-01-01T00:00:00.000Z''\<rparr>)],
          POINTS_FILE = None, fs_calls = [], prototype_claims = []\<rparr>" "''41''"]
  by (simp add: inheritedTruthy_samples)

text \<open>
  The identifier \<^verbatim>\<open>toString\<close> on an empty ledger: the lookup finds the function that
  every object inherits, no record is created, and the function is what the call
  returns.
\<close>

theorem getOrCreateUserPoints_inherited_counterexample:
  "getOrCreateUserPoints ''toString''
     \<lparr>points = [], POINTS_FILE = None, fs_calls = [], prototype_claims = []\<rparr>
     = (InheritedObject ''toString'',
        \<lparr>points = [], POINTS_FILE = None, fs_calls = [], prototype_claims = []\<rparr>)
   \<and> map_of (points (snd (getOrCreateUserPoints ''toString''
        \<lparr>points = [], POINTS_FILE = None, fs_calls = [], prototype_claims = []\<rparr>))) ''toString'' = None"
  by code_simp

subsection \<open>The cooldown\<close>

lemma canClaim_unset: "canClaimPoints parseDate now (Some '''') = (86400000 \<le> now)"
proof -
  have "(24 \<le> rat_of_int now / 3600000) = (rat_of_int 86400000 \<le> rat_of_int now)"
    by (simp add: pos_le_divide_eq)
  also have "\<dots> = (86400000 \<le> now)"
    by (simp only: of_int_le_iff)
  finally show ?thesis
    by (simp add: canClaimPoints_def POINT_COOLDOWN_HOURS_def)
qed

lemma canClaim_undefined: "canClaimPoints parseDate now None = (86400000 \<le> now)"
proof -
  have "(24 \<le> rat_of_int now / 3600000) = (rat_of_int 86400000 \<le> rat_of_int now)"
    by (simp add: pos_le_divide_eq)
  also have "\<dots> = (86400000 \<le> now)"
    by (simp only: of_int_le_iff)
  finally show ?thesis
    by (simp add: canClaimPoints_def POINT_COOLDOWN_HOURS_def)
qed

lemma canClaim_set:
  assumes "str \<noteq> ''''" and "parseDate str = Some t"
  shows "canClaimPoints parseDate now (Some str) = (86400000 \<le> now - t)"
proof -
  have "(24 \<le> rat_of_int (now - t) / 3600000) = (rat_of_int 86400000 \<le> rat_of_int (now - t))"
    by (simp add: pos_le_divide_eq)
  also have "\<dots> = (86400000 \<le> now - t)"
    by (simp only: of_int_le_iff)
  finally show ?thesis
    using assms by (simp add: canClaimPoints_def POINT_COOLDOWN_HOURS_def)
qed

lemma canClaim_invalid:
  assumes "str \<noteq> ''''" and "parseDate str = None"
  shows "\<not> canClaimPoints parseDate now (Some str)"
  using assms by (simp add: canClaimPoints_def)

lemma tryClaim_own:
  assumes "fst (getOrCreateUserPoints userId s) = OwnRecord r"
  shows "tryClaimPoints parseDate now stamp userId s =
           (if canClaimPoints parseDate now (Some (lastClaimedAt r))
            then (Returns True,
                  savePoints
                    ((snd (getOrCreateUserPoints userId s))
                       \<lparr>points :=
                          AList.update userId
                            (r\<lparr>score := score r + 1, lastClaimedAt := toISOString stamp\<rparr>)
                            (points (snd (getOrCreateUserPoints userId s)))\<rparr>))
            else (Returns False, snd (getOrCreateUserPoints userId s)))"
  using assms by (simp add: tryClaimPoints_def split_beta Let_def)

lemma tryClaim_object:
  assumes "fst (getOrCreateUserPoints userId s) = InheritedObject name"
  shows "tryClaimPoints parseDate now stamp userId s =
           (if canClaimPoints parseDate now (lastClaimedAtOf s (InheritedObject name))
            then (Returns True,
                  savePoints
                    (s\<lparr>prototype_claims :=
                         AList.update name (toISOString stamp) (prototype_claims s)\<rparr>))
            else (Returns False, s))"
proof -
  have "\<And>r. fst (getOrCreateUserPoints userId s) \<noteq> OwnRecord r"
    using assms by simp
  then have "snd (getOrCreateUserPoints userId s) = s"
    using getOrCreate_not_own[of userId s] by blast
  with assms show ?thesis
    by (simp add: tryClaimPoints_def split_beta Let_def)
qed

lemma tryClaim_string:
  assumes "fst (getOrCreateUserPoints userId s) = InheritedString str"
  shows "tryClaimPoints parseDate now stamp userId s =
           (if canClaimPoints parseDate now (map_of (prototype_claims s) ''__proto__'')
            then (Throws TypeError, s)
            else (Returns False, s))"
proof -
  have "\<And>r. fst (getOrCreateUserPoints userId s) \<noteq> OwnRecord r"
    using assms by simp
  then have "snd (getOrCreateUserPoints userId s) = s"
    using getOrCreate_not_own[of userId s] by blast
  with assms show ?thesis
    by (simp add: tryClaimPoints_def split_beta Let_def)
qed

lemma tryClaim_own_lookup:
  assumes "fst (getOrCreateUserPoints userId s) = OwnRecord r"
    and "canClaimPoints parseDate now (Some (lastClaimedAt r))"
  shows "map_of (points (snd (tryClaimPoints parseDate now stamp userId s))) k =
           (if k = userId
            then Some (r\<lparr>score := score r + 1, lastClaimedAt := toISOString stamp\<rparr>)
            else map_of (points s) k)"
  using assms(2)
  by (simp add: tryClaim_own[OF assms(1)] savePoints_def update_conv' getOrCreate_others)

lemma tryClaim_inherited_points:
  assumes "\<And>r. fst (getOrCreateUserPoints userId s) \<noteq> OwnRecord r"
  shows "points (snd (tryClaimPoints parseDate now stamp userId s)) = points s"
proof (cases "fst (getOrCreateUserPoints userId s)")
  case (OwnRecord r)
  with assms[of r] show ?thesis by simp
next
  case (InheritedObject name)
  then show ?thesis by (simp add: tryClaim_object savePoints_def)
next
  case (InheritedString str)
  then show ?thesis by (simp add: tryClaim_string)
qed

lemma tryClaim_inherited_result:
  assumes "\<And>r. fst (getOrCreateUserPoints userId s) \<noteq> OwnRecord r"
  shows "map_of (points (snd (tryClaimPoints parseDate now stamp userId s))) userId = None"
  using getOrCreate_not_own[OF assms] tryClaim_inherited_points[OF assms] by simp

text \<open>
  Claim C1. Let the record of a user hold a claim time that the platform reads as the
  instant \<open>t\<close>. A call of \<open>tryClaimPoints\<close> whose clock reads \<open>t + \<Delta>\<close> with
  \<open>0 \<le> \<Delta> < 24 h\<close> returns \<open>False\<close> and leaves the whole state as it was: the ledger,
  the file and the record of file system calls. With \<open>\<Delta> \<ge> 24 h\<close> it returns \<open>True\<close> and
  the score is one more. At every \<open>\<Delta>\<close> the score grows by one exactly when the call
  returns \<open>True\<close>.
\<close>

theorem tryClaimPoints_cooldown:
  assumes "map_of (points s) userId = Some r"
    and "lastClaimedAt r \<noteq> ''''"
    and "parseDate (lastClaimedAt r) = Some t"
  shows "(0 \<le> \<Delta> \<and> \<Delta> < 24 * 60 * 60 * 1000 \<longrightarrow>
            tryClaimPoints parseDate (t + \<Delta>) stamp userId s = (Returns False, s))
       \<and> (24 * 60 * 60 * 1000 \<le> \<Delta> \<longrightarrow>
            fst (tryClaimPoints parseDate (t + \<Delta>) stamp userId s) = Returns True
            \<and> map_option score (map_of (points (snd (tryClaimPoints parseDate (t + \<Delta>) stamp userId s))) userId)
                = Some (score r + 1))
       \<and> map_option score (map_of (points (snd (tryClaimPoints parseDate (t + \<Delta>) stamp userId s))) userId)
           = Some (score r + (if fst (tryClaimPoints parseDate (t + \<Delta>) stamp userId s) = Returns True
                              then 1 else 0))"
proof -
  have g: "getOrCreateUserPoints userId s = (OwnRecord r, s)"
    using assms(1) by (rule getOrCreate_present)
  then have o: "fst (getOrCreateUserPoints userId s) = OwnRecord r"
    by simp
  have c: "canClaimPoints parseDate (t + \<Delta>) (Some (lastClaimedAt r)) = (86400000 \<le> \<Delta>)"
    using canClaim_set[of "lastClaimedAt r" parseDate t "t + \<Delta>"] assms(2,3) by simp
  show ?thesis
  proof (cases "86400000 \<le> \<Delta>")
    case True
    then have e: "canClaimPoints parseDate (t + \<Delta>) (Some (lastClaimedAt r))"
      by (simp add: c)
    have f: "fst (tryClaimPoints parseDate (t + \<Delta>) stamp userId s) = Returns True"
      using e by (simp add: tryClaim_own[OF o])
    have l: "map_of (points (snd (tryClaimPoints parseDate (t + \<Delta>) stamp userId s))) userId
               = Some (r\<lparr>score := score r + 1, lastClaimedAt := toISOString stamp\<rparr>)"
      by (simp add: tryClaim_own_lookup[OF o e])
    show ?thesis
      using True by (simp add: f l)
  next
    case False
    then show ?thesis
      using assms(1) by (simp add: tryClaim_own[OF o] g c)
  qed
qed

lemma Date_parse_2024: "Date_parse ''2024-01-01T00:00:00.000Z'' = Some 1704067200000"
  by code_simp

theorem tryClaimPoints_cooldown_witness:
  "tryClaimPoints Date_parse (1704067200000 + 86399999) 1704153599999 ''41''
     \<lparr>points = [(''41'', \<lparr>score = 3, lastClaimedAt = ''2024-01-01T00:00:00.000Z''\<rparr>)],
      POINTS_FILE = None, fs_calls = [], prototype_claims = []\<rparr>
   = (Returns False,
      \<lparr>points = [(''41'', \<lparr>score = 3, lastClaimedAt = ''2024-01-01T00:00:00.000Z''\<rparr>)],
       POINTS_FILE = None, fs_calls = [], prototype_claims = []\<rparr>)
   \<and> fst (tryClaimPoints Date_parse (1704067200000 + 86400000) 1704153600000 ''41''
        \<lparr>points = [(''41'', \<lparr>score = 3, lastClaimedAt = ''2024-01-01T00:00:00.000Z''\<rparr>)],
         POINTS_FILE = None, fs_calls = [], prototype_claims = []\<rparr>) = Returns True
   \<and> map_option score (map_of (points (snd (tryClaimPoints Date_parse (1704067200000 + 86400000) 1704153600000 ''41''
        \<lparr>points = [(''41'', \<lparr>score = 3, lastClaimedAt = ''2024-01-01T00:00:00.000Z''\<rparr>)],
         POINTS_FILE = None, fs_calls = [], prototype_claims = []\<rparr>))) ''41'') = Some 4"
proof -
  let ?s = "\<lparr>points = [(''41'', \<lparr>score = 3, lastClaimedAt = ''2024-01-01T00:00:00.000Z''\<rparr>)],
             POINTS_FILE = None, fs_calls = [], prototype_claims = []\<rparr>"
  let ?r = "\<lparr>score = 3, lastClaimedAt = ''2024-01-01T00:00:00.000Z''\<rparr>"
  have h1: "map_of (points ?s) ''41'' = Some ?r" by simp
  have h2: "lastClaimedAt ?r \<noteq> ''''" by simp
  have h3: "Date_parse (lastClaimedAt ?r) = Some 1704067200000" by (simp add: Date_parse_2024)
  show ?thesis
    using tryClaimPoints_cooldown[of ?s "''41''" ?r Date_parse 1704067200000 86399999 1704153599999,
        OF h1 h2 h3]
      tryClaimPoints_cooldown[of ?s "''41''" ?r Date_parse 1704067200000 86400000 1704153600000,
        OF h1 h2 h3]
    by simp
qed

text \<open>
  Claim C2, as the code has it. An identifier that has no record and names nothing that
  the ledger inherits gets a record with score 0 and an unset claim time, and the unset
  time stands for the epoch. So the first call of \<open>tryClaimPoints\<close> returns \<open>True\<close> and
  leaves score 1 when its clock reads 24 hours or more past the epoch
  (1970-01-02T00:00:00.000Z or later); when the clock reads less, it returns \<open>False\<close> and
  leaves the new record with score 0.
\<close>

theorem tryClaimPoints_first:
  assumes "map_of (points s) userId = None"
    and "inheritedTruthy s userId = None"
  shows "(24 * 60 * 60 * 1000 \<le> t0 \<longrightarrow>
            fst (tryClaimPoints parseDate t0 stamp userId s) = Returns True
            \<and> map_option score (map_of (points (snd (tryClaimPoints parseDate t0 stamp userId s))) userId)
                = Some 1)
       \<and> (t0 < 24 * 60 * 60 * 1000 \<longrightarrow>
            tryClaimPoints parseDate t0 stamp userId s =
              (Returns False,
               s\<lparr>points := points s @ [(userId, \<lparr>score = 0, lastClaimedAt = ''''\<rparr>)]\<rparr>))"
proof -
  let ?r = "\<lparr>score = 0, lastClaimedAt = ''''\<rparr>"
  have g: "getOrCreateUserPoints userId s =
             (OwnRecord ?r, s\<lparr>points := points s @ [(userId, ?r)]\<rparr>)"
    using assms by (rule getOrCreate_absent)
  then have o: "fst (getOrCreateUserPoints userId s) = OwnRecord ?r"
    by simp
  show ?thesis
  proof (cases "86400000 \<le> t0")
    case True
    then have e: "canClaimPoints parseDate t0 (Some (lastClaimedAt ?r))"
      by (simp add: canClaim_unset)
    have f: "fst (tryClaimPoints parseDate t0 stamp userId s) = Returns True"
      using e by (simp add: tryClaim_own[OF o])
    have l: "map_of (points (snd (tryClaimPoints parseDate t0 stamp userId s))) userId
               = Some (?r\<lparr>score := score ?r + 1, lastClaimedAt := toISOString stamp\<rparr>)"
      by (simp add: tryClaim_own_lookup[OF o e] del: PointData.simps)
    show ?thesis
      using True by (simp add: f l)
  next
    case False
    then show ?thesis
      by (simp add: tryClaim_own[OF o] g canClaim_unset)
  qed
qed

lemma inheritedTruthy_42:
  "inheritedTruthy \<lparr>points = [], POINTS_FILE = None, fs_calls = [], prototype_claims = []\<rparr> ''42'' = None"
  by code_simp

theorem tryClaimPoints_first_witness:
  "fst (tryClaimPoints Date_parse 1704067200000 1704067200000 ''42''
          \<lparr>points = [], POINTS_FILE = None, fs_calls = [], prototype_claims = []\<rparr>) = Returns True
   \<and> map_option score (map_of (points (snd (tryClaimPoints Date_parse 1704067200000 1704067200000 ''42''
          \<lparr>points = [], POINTS_FILE = None, fs_calls = [], prototype_claims = []\<rparr>))) ''42'') = Some 1"
proof -
  have h: "map_of (points \<lparr>points = [], POINTS_FILE = None, fs_calls = [], prototype_claims = []\<rparr>) ''42'' = None"
    by simp
  show ?thesis
    using tryClaimPoints_first[of "\<lparr>points = [], POINTS_FILE = None, fs_calls = [], prototype_claims = []\<rparr>" "''42''"
        1704067200000 Date_parse 1704067200000, OF h inheritedTruthy_42]
    by simp
qed

text \<open>
  The first claim of a user when the clock reads the epoch itself: refused, score 0.
\<close>

theorem tryClaimPoints_first_counterexample:
  "tryClaimPoints Date_parse 0 0 ''42'' \<lparr>points = [], POINTS_FILE = None, fs_calls = [], prototype_claims = []\<rparr>
     = (Returns False,
        \<lparr>points = [(''42'', \<lparr>score = 0, lastClaimedAt = ''''\<rparr>)],
         POINTS_FILE = None, fs_calls = [], prototype_claims = []\<rparr>)"
  by code_simp

subsection \<open>A successful claim\<close>

text \<open>
  Claim C3, as the code has it. Let the user's identifier resolve to a record \<open>r\<close> of
  the ledger when the eligibility check is made (the new record with score 0 for a user
  seen for the first time). When the check at the clock reading \<open>now\<close> passes,
  \<open>tryClaimPoints\<close> returns \<open>True\<close>; the user's record then has the score of \<open>r\<close> plus
  one and, as claim time, the ISO form of \<open>stamp\<close>, the second reading of the clock,
  taken after the check; no other user's record changes; the file holds the
  serialization of the whole new ledger, written by one call of \<^verbatim>\<open>writeFileSync\<close>. When
  the clock gives the same reading twice, the claim time is the ISO form of the instant
  of the check.
\<close>

theorem tryClaimPoints_eligible:
  assumes "fst (getOrCreateUserPoints userId s) = OwnRecord r"
    and "canClaimPoints parseDate now (Some (lastClaimedAt r))"
  shows "fst (tryClaimPoints parseDate now stamp userId s) = Returns True
       \<and> map_of (points (snd (tryClaimPoints parseDate now stamp userId s))) userId
           = Some \<lparr>score = score r + 1, lastClaimedAt = toISOString stamp\<rparr>
       \<and> (stamp = now \<longrightarrow>
             map_option lastClaimedAt
               (map_of (points (snd (tryClaimPoints parseDate now stamp userId s))) userId)
               = Some (toISOString now))
       \<and> (\<forall>k. k \<noteq> userId \<longrightarrow>
             map_of (points (snd (tryClaimPoints parseDate now stamp userId s))) k = map_of (points s) k)
       \<and> POINTS_FILE (snd (tryClaimPoints parseDate now stamp userId s))
           = Some (JSON_stringify (points (snd (tryClaimPoints parseDate now stamp userId s))))
       \<and> fs_calls (snd (tryClaimPoints parseDate now stamp userId s))
           = fs_calls s @ [WriteFileSync (JSON_stringify (points (snd (tryClaimPoints parseDate now stamp userId s))))]"
proof (intro conjI allI impI)
  show "fst (tryClaimPoints parseDate now stamp userId s) = Returns True"
    using assms(2) by (simp add: tryClaim_own[OF assms(1)])
  show "map_of (points (snd (tryClaimPoints parseDate now stamp userId s))) userId
           = Some \<lparr>score = score r + 1, lastClaimedAt = toISOString stamp\<rparr>"
    by (simp add: tryClaim_own_lookup[OF assms])
  show "map_option lastClaimedAt
          (map_of (points (snd (tryClaimPoints parseDate now stamp userId s))) userId)
          = Some (toISOString now)"
    if "stamp = now"
    using that by (simp add: tryClaim_own_lookup[OF assms])
  show "map_of (points (snd (tryClaimPoints parseDate now stamp userId s))) k = map_of (points s) k"
    if "k \<noteq> userId" for k
    using that by (simp add: tryClaim_own_lookup[OF assms])
  show "POINTS_FILE (snd (tryClaimPoints parseDate now stamp userId s))
           = Some (JSON_stringify (points (snd (tryClaimPoints parseDate now stamp userId s))))"
    using assms(2) by (simp add: tryClaim_own[OF assms(1)] savePoints_def)
  show "fs_calls (snd (tryClaimPoints parseDate now stamp userId s))
           = fs_calls s @ [WriteFileSync (JSON_stringify (points (snd (tryClaimPoints parseDate now stamp userId s))))]"
    using assms(2) by (simp add: tryClaim_own[OF assms(1)] savePoints_def getOrCreate_env)
qed

lemma canClaim_2024: "canClaimPoints Date_parse 1704067200000 (Some '''')"
  by (simp add: canClaim_unset)

theorem tryClaimPoints_eligible_witness:
  "fst (tryClaimPoints Date_parse 1704067200000 1704067200001 ''42''
          \<lparr>points = [], POINTS_FILE = None, fs_calls = [], prototype_claims = []\<rparr>) = Returns True
   \<and> map_of (points (snd (tryClaimPoints Date_parse 1704067200000 1704067200001 ''42''
          \<lparr>points = [], POINTS_FILE = None, fs_calls = [], prototype_claims = []\<rparr>))) ''42''
        = Some \<lparr>score = 1, lastClaimedAt = toISOString 1704067200001\<rparr>
   \<and> map_option lastClaimedAt
        (map_of (points (snd (tryClaimPoints Date_parse 1704067200000 1704067200000 ''42''
          \<lparr>points = [], POINTS_FILE = None, fs_calls = [], prototype_claims = []\<rparr>))) ''42'')
        = Some (toISOString 1704067200000)
   \<and> map_of (points (snd (tryClaimPoints Date_parse 1704067200000 1704067200001 ''42''
          \<lparr>points = [], POINTS_FILE = None, fs_calls = [], prototype_claims = []\<rparr>))) ''41'' = None
   \<and> POINTS_FILE (snd (tryClaimPoints Date_parse 1704067200000 1704067200001 ''42''
          \<lparr>points = [], POINTS_FILE = None, fs_calls = [], prototype_claims = []\<rparr>))
        = Some (JSON_stringify (points (snd (tryClaimPoints Date_parse 1704067200000 1704067200001 ''42''
          \<lparr>points = [], POINTS_FILE = None, fs_calls = [], prototype_claims = []\<rparr>))))"
proof -
  let ?s = "\<lparr>points = [], POINTS_FILE = None, fs_calls = [], prototype_claims = []\<rparr>"
  have h1: "fst (getOrCreateUserPoints ''42'' ?s) = OwnRecord \<lparr>score = 0, lastClaimedAt = ''''\<rparr>"
    by (simp add: getOrCreate_absent inheritedTruthy_42)
  have h2: "canClaimPoints Date_parse 1704067200000
              (Some (lastClaimedAt \<lparr>score = 0, lastClaimedAt = ''''\<rparr>))"
    by (simp add: canClaim_2024)
  have d: "''41'' \<noteq> ''42''" by simp
  show ?thesis
    using tryClaimPoints_eligible[of "''42''" ?s "\<lparr>score = 0, lastClaimedAt = ''''\<rparr>"
        Date_parse 1704067200000 1704067200001, OF h1 h2]
      tryClaimPoints_eligible[of "''42''" ?s "\<lparr>score = 0, lastClaimedAt = ''''\<rparr>"
        Date_parse 1704067200000 1704067200000, OF h1 h2] d
    by simp
qed

text \<open>
  A claim during which the clock moves on by one millisecond between the check and the
  stamp: the claim is granted at 2024-01-01T00:00:00.000Z and the record holds
  2024-01-01T00:00:00.001Z.
\<close>

theorem tryClaimPoints_eligible_counterexample:
  "fst (tryClaimPoints Date_parse 1704067200000 1704067200001 ''42''
          \<lparr>points = [], POINTS_FILE = None, fs_calls = [], prototype_claims = []\<rparr>) = Returns True
   \<and> map_option lastClaimedAt (map_of (points (snd (tryClaimPoints Date_parse 1704067200000 1704067200001 ''42''
          \<lparr>points = [], POINTS_FILE = None, fs_calls = [], prototype_claims = []\<rparr>))) ''42'')
        = Some ''2024-01-01T00:00:00.001Z''
   \<and> toISOString 1704067200000 = ''2024-01-01T00:00:00.000Z''
   \<and> Date_parse ''2024-01-01T00:00:00.001Z'' = Some 1704067200001"
  by code_simp

subsection \<open>The empty identifier\<close>

text \<open>
  Claim C7, as the code has it. No operation inspects the identifier. The empty string
  is a property name like any other, and nothing is inherited under it:
  \<open>getOrCreateUserPoints\<close> returns the record stored under it, a new one with score 0 if
  there was none, \<open>tryClaimPoints\<close> grants it a first claim as it does for every
  identifier, and no call with it ends in an exception.
\<close>

theorem empty_userId_accepted:
  "map_option OwnRecord (map_of (points (snd (getOrCreateUserPoints '''' s))) '''')
     = Some (fst (getOrCreateUserPoints '''' s))
   \<and> (map_of (points s) '''' = None \<longrightarrow>
        fst (getOrCreateUserPoints '''' s) = OwnRecord \<lparr>score = 0, lastClaimedAt = ''''\<rparr>)
   \<and> (map_of (points s) '''' = None \<and> 24 * 60 * 60 * 1000 \<le> now \<longrightarrow>
        fst (tryClaimPoints parseDate now stamp '''' s) = Returns True
        \<and> map_of (points (snd (tryClaimPoints parseDate now stamp '''' s))) ''''
            = Some \<lparr>score = 1, lastClaimedAt = toISOString stamp\<rparr>)
   \<and> (\<forall>e. fst (tryClaimPoints parseDate now stamp '''' s) \<noteq> Throws e)"
proof (intro conjI impI allI)
  show "map_option OwnRecord (map_of (points (snd (getOrCreateUserPoints '''' s))) '''')
          = Some (fst (getOrCreateUserPoints '''' s))"
    by (cases rule: getOrCreate_cases[of s "''''"])
      (simp_all add: inheritedTruthy_empty map_add_def)
  show "fst (getOrCreateUserPoints '''' s) = OwnRecord \<lparr>score = 0, lastClaimedAt = ''''\<rparr>"
    if "map_of (points s) '''' = None"
    using that by (simp add: getOrCreate_absent inheritedTruthy_empty)
  show "fst (tryClaimPoints parseDate now stamp '''' s) \<noteq> Throws e" for e
    by (cases rule: getOrCreate_cases[of s "''''"])
      (simp_all add: inheritedTruthy_empty tryClaim_own)
  assume a: "map_of (points s) '''' = None \<and> 24 * 60 * 60 * 1000 \<le> now"
  then have o: "fst (getOrCreateUserPoints '''' s) = OwnRecord \<lparr>score = 0, lastClaimedAt = ''''\<rparr>"
    by (simp add: getOrCreate_absent inheritedTruthy_empty)
  from a have e: "canClaimPoints parseDate now (Some (lastClaimedAt \<lparr>score = 0, lastClaimedAt = ''''\<rparr>))"
    by (simp add: canClaim_unset)
  show "fst (tryClaimPoints parseDate now stamp '''' s) = Returns True"
    using e by (simp add: tryClaim_own[OF o])
  show "map_of (points (snd (tryClaimPoints parseDate now stamp '''' s))) ''''
            = Some \<lparr>score = 1, lastClaimedAt = toISOString stamp\<rparr>"
    by (simp add: tryClaim_own_lookup[OF o e])
qed

theorem empty_userId_accepted_witness:
  "map_of (points \<lparr>points = [], POINTS_FILE = None, fs_calls = [], prototype_claims = []\<rparr>) '''' = None
   \<and> fst (getOrCreateUserPoints '''' \<lparr>points = [], POINTS_FILE = None, fs_calls = [], prototype_claims = []\<rparr>)
       = OwnRecord \<lparr>score = 0, lastClaimedAt = ''''\<rparr>
   \<and> fst (tryClaimPoints Date_parse 1704067200000 1704067200000 ''''
            \<lparr>points = [], POINTS_FILE = None, fs_calls = [], prototype_claims = []\<rparr>) = Returns True
   \<and> map_of (points (snd (tryClaimPoints Date_parse 1704067200000 1704067200000 ''''
            \<lparr>points = [], POINTS_FILE = None, fs_calls = [], prototype_claims = []\<rparr>))) ''''
       = Some \<lparr>score = 1, lastClaimedAt = toISOString 1704067200000\<rparr>"
  using empty_userId_accepted[of "\<lparr>points = [], POINTS_FILE = None, fs_calls = [], prototype_claims = []\<rparr>"
      1704067200000 Date_parse 1704067200000]
  by simp

text \<open>
  The empty identifier given to both operations on an empty ledger: each returns
  normally, and a record is stored under the empty name.
\<close>

theorem empty_userId_counterexample:
  "getOrCreateUserPoints '''' \<lparr>points = [], POINTS_FILE = None, fs_calls = [], prototype_claims = []\<rparr>
     = (OwnRecord \<lparr>score = 0, lastClaimedAt = ''''\<rparr>,
        \<lparr>points = [('''', \<lparr>score = 0, lastClaimedAt = ''''\<rparr>)], POINTS_FILE = None, fs_calls = [],
         prototype_claims = []\<rparr>)
   \<and> fst (tryClaimPoints Date_parse 1704067200000 1704067200000 ''''
            \<lparr>points = [], POINTS_FILE = None, fs_calls = [], prototype_claims = []\<rparr>) = Returns True
   \<and> points (snd (tryClaimPoints Date_parse 1704067200000 1704067200000 ''''
            \<lparr>points = [], POINTS_FILE = None, fs_calls = [], prototype_claims = []\<rparr>))
       = [('''', \<lparr>score = 1, lastClaimedAt = ''2024-01-01T00:00:00.000Z''\<rparr>)]"
  by code_simp

subsection \<open>Scores over the life of a ledger\<close>

lemma set_update_subset: "set (AList.update k v al) \<subseteq> insert (k, v) (set al)"
  by (induction al) auto

lemma getOrCreate_nonneg:
  assumes "scoresNonNegative s"
  shows "scoresNonNegative (snd (getOrCreateUserPoints userId s))"
proof (cases rule: getOrCreate_cases[of s userId])
  case (present r)
  with assms show ?thesis by simp
next
  case (inherited v)
  with assms show ?thesis by simp
next
  case absent
  with assms show ?thesis by (simp add: scoresNonNegative_def)
qed

lemma getOrCreate_own_nonneg:
  assumes "scoresNonNegative s" and "fst (getOrCreateUserPoints userId s) = OwnRecord r"
  shows "0 \<le> score r"
proof -
  have "map_of (points (snd (getOrCreateUserPoints userId s))) userId = Some r"
    using assms(2) by (rule getOrCreate_own)
  then have "(userId, r) \<in> set (points (snd (getOrCreateUserPoints userId s)))"
    by (rule map_of_SomeD)
  with getOrCreate_nonneg[OF assms(1), of userId] show ?thesis
    by (auto simp: scoresNonNegative_def list_all_iff)
qed

lemma tryClaim_nonneg:
  assumes "scoresNonNegative s"
  shows "scoresNonNegative (snd (tryClaimPoints parseDate now stamp userId s))"
proof (cases "\<exists>r. fst (getOrCreateUserPoints userId s) = OwnRecord r")
  case True
  then obtain r where o: "fst (getOrCreateUserPoints userId s) = OwnRecord r"
    by blast
  let ?s1 = "snd (getOrCreateUserPoints userId s)"
  let ?r' = "r\<lparr>score := score r + 1, lastClaimedAt := toISOString stamp\<rparr>"
  have "set (AList.update userId ?r' (points ?s1)) \<subseteq> insert (userId, ?r') (set (points ?s1))"
    by (rule set_update_subset)
  moreover have "0 \<le> score ?r'"
    using getOrCreate_own_nonneg[OF assms o] by simp
  moreover have "\<forall>e\<in>set (points ?s1). 0 \<le> score (snd e)"
    using getOrCreate_nonneg[OF assms, of userId] by (simp add: scoresNonNegative_def list_all_iff)
  ultimately have u: "\<forall>e\<in>set (AList.update userId ?r' (points ?s1)). 0 \<le> score (snd e)"
    by auto
  show ?thesis
  proof (cases "canClaimPoints parseDate now (Some (lastClaimedAt r))")
    case True
    with u show ?thesis
      by (simp add: tryClaim_own[OF o] savePoints_def scoresNonNegative_def list_all_iff)
  next
    case False
    with getOrCreate_nonneg[OF assms, of userId] show ?thesis
      by (simp add: tryClaim_own[OF o])
  qed
next
  case False
  then have n: "\<And>r. fst (getOrCreateUserPoints userId s) \<noteq> OwnRecord r"
    by blast
  have "points (snd (tryClaimPoints parseDate now stamp userId s)) = points s"
    using n by (rule tryClaim_inherited_points)
  with assms show ?thesis by (simp add: scoresNonNegative_def)
qed

lemma perform_nonneg: "scoresNonNegative s \<Longrightarrow> scoresNonNegative (perform parseDate c s)"
  by (cases c) (simp_all add: getOrCreate_nonneg tryClaim_nonneg getTopUsers_def)

lemma performAll_nonneg: "scoresNonNegative s \<Longrightarrow> scoresNonNegative (performAll parseDate calls s)"
  unfolding performAll_def
  by (induction calls arbitrary: s) (simp_all add: perform_nonneg)

lemma tryClaim_step:
  assumes "map_of (points s) k = Some r"
  shows "map_of (points (snd (tryClaimPoints parseDate now stamp userId s))) k =
           (if k = userId \<and> fst (tryClaimPoints parseDate now stamp userId s) = Returns True
            then Some (r\<lparr>score := score r + 1, lastClaimedAt := toISOString stamp\<rparr>)
            else Some r)"
proof (cases "\<exists>r0. fst (getOrCreateUserPoints userId s) = OwnRecord r0")
  case True
  then obtain r0 where o: "fst (getOrCreateUserPoints userId s) = OwnRecord r0"
    by blast
  show ?thesis
  proof (cases "canClaimPoints parseDate now (Some (lastClaimedAt r0))")
    case e: True
    have f: "fst (tryClaimPoints parseDate now stamp userId s) = Returns True"
      using e by (simp add: tryClaim_own[OF o])
    show ?thesis
    proof (cases "k = userId")
      case same: True
      with assms have "getOrCreateUserPoints userId s = (OwnRecord r, s)"
        by (simp add: getOrCreate_present)
      with o have "r0 = r" by simp
      with same f show ?thesis
        using tryClaim_own_lookup[OF o e, of stamp k] by simp
    next
      case other: False
      with assms show ?thesis
        using tryClaim_own_lookup[OF o e, of stamp k] by simp
    qed
  next
    case False
    then have "tryClaimPoints parseDate now stamp userId s
                 = (Returns False, snd (getOrCreateUserPoints userId s))"
      by (simp add: tryClaim_own[OF o])
    with assms show ?thesis by (simp add: getOrCreate_keeps)
  qed
next
  case False
  then have n: "\<And>r. fst (getOrCreateUserPoints userId s) \<noteq> OwnRecord r"
    by blast
  have "k \<noteq> userId"
    using getOrCreate_not_own[OF n] assms by auto
  with assms show ?thesis
    by (simp add: tryClaim_inherited_points[OF n])
qed

lemma perform_step:
  assumes "map_of (points s) k = Some r"
  shows "\<exists>r'. map_of (points (perform parseDate c s)) k = Some r'
           \<and> (score r' = score r
              \<or> score r' = score r + 1
                \<and> (\<exists>now stamp. c = TryClaimPoints k now stamp
                      \<and> fst (tryClaimPoints parseDate now stamp k s) = Returns True))"
proof (cases c)
  case (GetOrCreateUserPoints userId)
  with assms show ?thesis by (simp add: getOrCreate_keeps)
next
  case (TryClaimPoints userId now stamp)
  with assms show ?thesis by (auto simp: tryClaim_step)
next
  case (GetTopUsers limit)
  with assms show ?thesis by (simp add: getTopUsers_def)
qed

lemma performAll_monotone:
  assumes "map_of (points s) k = Some r"
  shows "\<exists>r'. map_of (points (performAll parseDate calls s)) k = Some r' \<and> score r \<le> score r'"
  using assms
proof (induction calls arbitrary: s r)
  case Nil
  then show ?case by (simp add: performAll_def)
next
  case (Cons c calls)
  from perform_step[OF Cons.prems, of parseDate c]
  obtain r1 where r1: "map_of (points (perform parseDate c s)) k = Some r1" and le: "score r \<le> score r1"
    by auto
  from Cons.IH[OF r1]
  obtain r' where "map_of (points (performAll parseDate calls (perform parseDate c s))) k = Some r'"
    and "score r1 \<le> score r'"
    by auto
  with le show ?case
    by (auto simp: performAll_def)
qed

lemma getOrCreate_created:
  assumes "map_of (points s) k = None"
    and "map_of (points (snd (getOrCreateUserPoints userId s))) k = Some r'"
  shows "k = userId \<and> r' = \<lparr>score = 0, lastClaimedAt = ''''\<rparr>
         \<and> fst (getOrCreateUserPoints userId s) = OwnRecord r'"
proof (cases rule: getOrCreate_cases[of s userId])
  case (present r)
  with assms show ?thesis by simp
next
  case (inherited v)
  with assms show ?thesis by simp
next
  case absent
  with assms show ?thesis
    by (cases "k = userId") (auto simp: map_add_def)
qed

lemma tryClaim_created:
  assumes "map_of (points s) k = None"
    and "map_of (points (snd (tryClaimPoints parseDate now stamp userId s))) k = Some r'"
  shows "score r' = 0 \<or> score r' = 1"
proof (cases "\<exists>r0. fst (getOrCreateUserPoints userId s) = OwnRecord r0")
  case True
  then obtain r0 where o: "fst (getOrCreateUserPoints userId s) = OwnRecord r0"
    by blast
  show ?thesis
  proof (cases "canClaimPoints parseDate now (Some (lastClaimedAt r0))")
    case e: True
    from assms(2) have l: "(if k = userId
            then Some (r0\<lparr>score := score r0 + 1, lastClaimedAt := toISOString stamp\<rparr>)
            else map_of (points s) k) = Some r'"
      by (simp add: tryClaim_own_lookup[OF o e])
    with assms(1) have same: "k = userId"
      by (cases "k = userId") simp_all
    have "map_of (points (snd (getOrCreateUserPoints userId s))) userId = Some r0"
      using o by (rule getOrCreate_own)
    with assms(1) same have "r0 = \<lparr>score = 0, lastClaimedAt = ''''\<rparr>"
      using getOrCreate_created[of s k userId r0] by simp
    with l same show ?thesis by auto
  next
    case False
    then have "tryClaimPoints parseDate now stamp userId s
                 = (Returns False, snd (getOrCreateUserPoints userId s))"
      by (simp add: tryClaim_own[OF o])
    with assms show ?thesis
      using getOrCreate_created[of s k userId r'] by simp
  qed
next
  case False
  then have n: "\<And>r. fst (getOrCreateUserPoints userId s) \<noteq> OwnRecord r"
    by blast
  from assms show ?thesis
    by (simp add: tryClaim_inherited_points[OF n])
qed

lemma perform_created:
  assumes "map_of (points s) k = None" and "map_of (points (perform parseDate c s)) k = Some r'"
  shows "score r' = 0 \<or> score r' = 1"
proof (cases c)
  case (GetOrCreateUserPoints userId)
  with assms show ?thesis
    using getOrCreate_created[of s k userId r'] by simp
next
  case (TryClaimPoints userId now stamp)
  with assms show ?thesis
    using tryClaim_created[of s k parseDate now stamp userId r'] by simp
next
  case (GetTopUsers limit)
  with assms show ?thesis by (simp add: getTopUsers_def)
qed

text \<open>
  Claim C6, as the code has it. The constructor does not establish the invariant: it
  takes the ledger from the snapshot as it is, so the scores of a new ledger are
  non-negative exactly when the scores in the snapshot are; without a snapshot the
  ledger is empty. Every operation on a constructed ledger keeps a ledger without
  negative scores that way, over runs of any length. A record, once there, is never
  removed: one operation leaves its score as it is or, when the operation is a
  successful claim by that user, raises it by one; over a run the score never falls. A
  record that an operation creates starts at 0, or at 1 when the operation is the
  user's first successful claim.
\<close>

theorem score_invariant:
  "new_PointSystem parseJSON None
     = Loaded \<lparr>points = [], POINTS_FILE = None, fs_calls = [ExistsSync], prototype_claims = []\<rparr>
   \<and> scoresNonNegative
       \<lparr>points = [], POINTS_FILE = None, fs_calls = [ExistsSync], prototype_claims = []\<rparr>
   \<and> (\<forall>j ps. parseJSON body = Some j \<and> asPoints j = Some ps \<longrightarrow>
         new_PointSystem parseJSON (Some body)
           = Loaded \<lparr>points = ps, POINTS_FILE = Some body, fs_calls = [ExistsSync, ReadFileSync],
                      prototype_claims = []\<rparr>
         \<and> scoresNonNegative
             \<lparr>points = ps, POINTS_FILE = Some body, fs_calls = [ExistsSync, ReadFileSync],
              prototype_claims = []\<rparr>
           = (\<forall>e \<in> set ps. 0 \<le> score (snd e)))
   \<and> (scoresNonNegative s \<longrightarrow> scoresNonNegative (performAll parseDate calls s))
   \<and> (\<forall>k r. map_of (points s) k = Some r \<longrightarrow>
         (\<exists>r'. map_of (points (perform parseDate c s)) k = Some r'
            \<and> (score r' = score r
               \<or> score r' = score r + 1
                 \<and> (\<exists>now stamp. c = TryClaimPoints k now stamp
                       \<and> fst (tryClaimPoints parseDate now stamp k s) = Returns True))))
   \<and> (\<forall>k r. map_of (points s) k = Some r \<longrightarrow>
         (\<exists>r'. map_of (points (performAll parseDate calls s)) k = Some r' \<and> score r \<le> score r'))
   \<and> (\<forall>k r'. map_of (points s) k = None \<and> map_of (points (perform parseDate c s)) k = Some r' \<longrightarrow>
         score r' = 0 \<or> score r' = 1)"
proof (intro conjI allI impI)
  show "new_PointSystem parseJSON None
     = Loaded \<lparr>points = [], POINTS_FILE = None, fs_calls = [ExistsSync], prototype_claims = []\<rparr>"
    by (simp add: new_PointSystem_def loadPoints_def)
  show "scoresNonNegative
       \<lparr>points = [], POINTS_FILE = None, fs_calls = [ExistsSync], prototype_claims = []\<rparr>"
    by (simp add: scoresNonNegative_def)
  show "new_PointSystem parseJSON (Some body)
           = Loaded \<lparr>points = ps, POINTS_FILE = Some body, fs_calls = [ExistsSync, ReadFileSync],
                      prototype_claims = []\<rparr>"
    if "parseJSON body = Some j \<and> asPoints j = Some ps" for j ps
    using that by (simp add: new_PointSystem_def loadPoints_def)
  show "scoresNonNegative
             \<lparr>points = ps, POINTS_FILE = Some body, fs_calls = [ExistsSync, ReadFileSync],
              prototype_claims = []\<rparr>
           = (\<forall>e \<in> set ps. 0 \<le> score (snd e))"
    for ps
    by (simp add: scoresNonNegative_def list_all_iff)
  show "scoresNonNegative (performAll parseDate calls s)" if "scoresNonNegative s"
    using that by (rule performAll_nonneg)
  show "\<exists>r'. map_of (points (perform parseDate c s)) k = Some r'
            \<and> (score r' = score r
               \<or> score r' = score r + 1
                 \<and> (\<exists>now stamp. c = TryClaimPoints k now stamp
                       \<and> fst (tryClaimPoints parseDate now stamp k s) = Returns True))"
    if "map_of (points s) k = Some r" for k r
    using that by (rule perform_step)
  show "\<exists>r'. map_of (points (performAll parseDate calls s)) k = Some r' \<and> score r \<le> score r'"
    if "map_of (points s) k = Some r" for k r
    using that by (rule performAll_monotone)
  show "score r' = 0 \<or> score r' = 1"
    if "map_of (points s) k = None \<and> map_of (points (perform parseDate c s)) k = Some r'" for k r'
    using that perform_created by blast
qed

lemma JSON_parse_ledger:
  "JSON_parse (''{'' @ quoteJSON ''41'' @ '':{'' @ quoteJSON ''score'' @ '':3,''
                 @ quoteJSON ''lastClaimedAt'' @ '':'' @ quoteJSON ''2024-01-01T00:00:00.000Z'' @ ''}}'')
     = Some (JObject [(''41'', JObject [(''score'', JNumber 3),
                                        (''lastClaimedAt'', JString ''2024-01-01T00:00:00.000Z'')])])"
  by code_simp

lemma asPoints_ledger:
  "asPoints (JObject [(''41'', JObject [(''score'', JNumber 3),
                                        (''lastClaimedAt'', JString ''2024-01-01T00:00:00.000Z'')])])
     = Some [(''41'', \<lparr>score = 3, lastClaimedAt = ''2024-01-01T00:00:00.000Z''\<rparr>)]"
  by simp

theorem score_invariant_witness:
  "new_PointSystem JSON_parse
     (Some (''{'' @ quoteJSON ''41'' @ '':{'' @ quoteJSON ''score'' @ '':3,''
              @ quoteJSON ''lastClaimedAt'' @ '':'' @ quoteJSON ''2024-01-01T00:00:00.000Z'' @ ''}}''))
     = Loaded \<lparr>points = [(''41'', \<lparr>score = 3, lastClaimedAt = ''2024-01-01T00:00:00.000Z''\<rparr>)],
               POINTS_FILE =
                 Some (''{'' @ quoteJSON ''41'' @ '':{'' @ quoteJSON ''score'' @ '':3,''
                         @ quoteJSON ''lastClaimedAt'' @ '':'' @ quoteJSON ''2024-01-01T00:00:00.000Z'' @ ''}}''),
               fs_calls = [ExistsSync, ReadFileSync], prototype_claims = []\<rparr>
   \<and> scoresNonNegative
        \<lparr>points = [(''41'', \<lparr>score = 3, lastClaimedAt = ''2024-01-01T00:00:00.000Z''\<rparr>)],
         POINTS_FILE =
           Some (''{'' @ quoteJSON ''41'' @ '':{'' @ quoteJSON ''score'' @ '':3,''
                   @ quoteJSON ''lastClaimedAt'' @ '':'' @ quoteJSON ''2024-01-01T00:00:00.000Z'' @ ''}}''),
         fs_calls = [ExistsSync, ReadFileSync], prototype_claims = []\<rparr>
   \<and> scoresNonNegative
        (performAll Date_parse
           [TryClaimPoints ''41'' 1704153600000 1704153600001, GetOrCreateUserPoints ''42'',
            TryClaimPoints ''41'' 1704153600002 1704153600002, TryClaimPoints ''toString'' 1704153600003 1704153600003,
            GetTopUsers 10]
           \<lparr>points = [(''41'', \<lparr>score = 3, lastClaimedAt = ''2024-01-01T00:00:00.000Z''\<rparr>)],
            POINTS_FILE =
              Some (''{'' @ quoteJSON ''41'' @ '':{'' @ quoteJSON ''score'' @ '':3,''
                      @ quoteJSON ''lastClaimedAt'' @ '':'' @ quoteJSON ''2024-01-01T00:00:00.000Z'' @ ''}}''),
            fs_calls = [ExistsSync, ReadFileSync], prototype_claims = []\<rparr>)
   \<and> map_option score (map_of (points
        (performAll Date_parse
           [TryClaimPoints ''41'' 1704153600000 1704153600001, GetOrCreateUserPoints ''42'',
            TryClaimPoints ''41'' 1704153600002 1704153600002, TryClaimPoints ''toString'' 1704153600003 1704153600003,
            GetTopUsers 10]
           \<lparr>points = [(''41'', \<lparr>score = 3, lastClaimedAt = ''2024-01-01T00:00:00.000Z''\<rparr>)],
            POINTS_FILE =
              Some (''{'' @ quoteJSON ''41'' @ '':{'' @ quoteJSON ''score'' @ '':3,''
                      @ quoteJSON ''lastClaimedAt'' @ '':'' @ quoteJSON ''2024-01-01T00:00:00.000Z'' @ ''}}''),
            fs_calls = [ExistsSync, ReadFileSync], prototype_claims = []\<rparr>)) ''41'') = Some 4"
proof -
  let ?body = "''{'' @ quoteJSON ''41'' @ '':{'' @ quoteJSON ''score'' @ '':3,''
                 @ quoteJSON ''lastClaimedAt'' @ '':'' @ quoteJSON ''2024-01-01T00:00:00.000Z'' @ ''}}''"
  let ?ps = "[(''41'', \<lparr>score = 3, lastClaimedAt = ''2024-01-01T00:00:00.000Z''\<rparr>)]"
  let ?s = "\<lparr>points = ?ps, POINTS_FILE = Some ?body, fs_calls = [ExistsSync, ReadFileSync],
             prototype_claims = []\<rparr>"
  let ?calls = "[TryClaimPoints ''41'' 1704153600000 1704153600001, GetOrCreateUserPoints ''42'',
            TryClaimPoints ''41'' 1704153600002 1704153600002, TryClaimPoints ''toString'' 1704153600003 1704153600003,
            GetTopUsers 10]"
  note inv = score_invariant[of JSON_parse ?body ?s Date_parse ?calls "GetTopUsers 10"]
  note loaded = inv[THEN conjunct2, THEN conjunct2, THEN conjunct1, rule_format,
      OF conjI[OF JSON_parse_ledger asPoints_ledger]]
  note kept = inv[THEN conjunct2, THEN conjunct2, THEN conjunct2, THEN conjunct1, rule_format]
  have l: "new_PointSystem JSON_parse (Some ?body) = Loaded ?s"
    using loaded by (rule conjunct1)
  have "scoresNonNegative ?s = (\<forall>e \<in> set ?ps. 0 \<le> score (snd e))"
    using loaded by (rule conjunct2)
  also have "\<dots>"
    by simp
  finally have h: "scoresNonNegative ?s" .
  have p: "scoresNonNegative (performAll Date_parse ?calls ?s)"
    using h by (rule kept)
  have v: "map_option score (map_of (points (performAll Date_parse ?calls ?s)) ''41'') = Some 4"
    by code_simp
  show ?thesis
    by (intro conjI) (rule l h p v)+
qed

text \<open>
  A snapshot that holds a record with the score \<open>-5\<close>: the constructor returns with it
  as the ledger, and the operations leave the score as it is.
\<close>

theorem score_invariant_counterexample:
  "new_PointSystem JSON_parse
     (Some (''{'' @ quoteJSON ''8'' @ '':{'' @ quoteJSON ''score'' @ '':-5,''
              @ quoteJSON ''lastClaimedAt'' @ '':'' @ quoteJSON '''' @ ''}}''))
     = Loaded \<lparr>points = [(''8'', \<lparr>score = - 5, lastClaimedAt = ''''\<rparr>)],
               POINTS_FILE =
                 Some (''{'' @ quoteJSON ''8'' @ '':{'' @ quoteJSON ''score'' @ '':-5,''
                         @ quoteJSON ''lastClaimedAt'' @ '':'' @ quoteJSON '''' @ ''}}''),
               fs_calls = [ExistsSync, ReadFileSync], prototype_claims = []\<rparr>
   \<and> \<not> scoresNonNegative
          \<lparr>points = [(''8'', \<lparr>score = - 5, lastClaimedAt = ''''\<rparr>)],
           POINTS_FILE =
             Some (''{'' @ quoteJSON ''8'' @ '':{'' @ quoteJSON ''score'' @ '':-5,''
                     @ quoteJSON ''lastClaimedAt'' @ '':'' @ quoteJSON '''' @ ''}}''),
           fs_calls = [ExistsSync, ReadFileSync], prototype_claims = []\<rparr>
   \<and> fst (getOrCreateUserPoints ''8''
          \<lparr>points = [(''8'', \<lparr>score = - 5, lastClaimedAt = ''''\<rparr>)],
           POINTS_FILE =
             Some (''{'' @ quoteJSON ''8'' @ '':{'' @ quoteJSON ''score'' @ '':-5,''
                     @ quoteJSON ''lastClaimedAt'' @ '':'' @ quoteJSON '''' @ ''}}''),
           fs_calls = [ExistsSync, ReadFileSync], prototype_claims = []\<rparr>)
       = OwnRecord \<lparr>score = - 5, lastClaimedAt = ''''\<rparr>"
  by code_simp

subsection \<open>Enumeration, sorting and slicing\<close>

lemma insert_by_score:
  "insert_by (\<lambda>a b. score (snd b) - score (snd a)) x ys
     = insort_key (\<lambda>e. - score (snd e)) x ys"
  by (induction ys) auto

lemma Array_sort_score:
  "Array_sort (\<lambda>a b. score (snd b) - score (snd a)) xs = sort_key (\<lambda>e. - score (snd e)) xs"
  unfolding Array_sort_def sort_key_def
  by (induction xs) (simp_all add: insert_by_score)

lemma Array_slice0_take: "\<exists>m. Array_slice0 stop xs = take m xs"
  unfolding Array_slice0_def Let_def by blast

lemma Array_slice0_nonneg: "0 \<le> stop \<Longrightarrow> Array_slice0 stop xs = take (nat stop) xs"
  unfolding Array_slice0_def Let_def by (simp add: min_def)

lemma mset_Object_entries: "mset (Object_entries ps) = mset ps"
  unfolding Object_entries_def by simp

lemma set_Object_entries: "set (Object_entries ps) = set ps"
  using mset_Object_entries[of ps] by (metis set_mset_mset)

lemma length_Object_entries: "length (Object_entries ps) = length ps"
  using mset_Object_entries[of ps] by (metis size_mset)

lemma Object_entries_plain:
  assumes "\<forall>e\<in>set ps. arrayIndex (fst e) = None"
  shows "Object_entries ps = ps"
proof -
  from assms have "[e \<leftarrow> ps. arrayIndex (fst e) \<noteq> None] = []" and "[e \<leftarrow> ps. arrayIndex (fst e) = None] = ps"
    by (simp_all add: filter_empty_conv filter_id_conv)
  then show ?thesis by (simp add: Object_entries_def)
qed

lemma filter_take_prefix: "prefix (filter P (take m xs)) (filter P xs)"
proof -
  have "filter P xs = filter P (take m xs) @ filter P (drop m xs)"
    by (metis append_take_drop_id filter_append)
  then show ?thesis by (simp add: prefix_def)
qed

lemma filter_prefix: "prefix xs ys \<Longrightarrow> prefix (filter P xs) (filter P ys)"
  by (auto simp: prefix_def)

lemma sorted_desc_sort_key:
  "sorted_wrt (\<lambda>a b. score (snd b) \<le> score (snd a)) (sort_key (\<lambda>e. - score (snd e)) xs)"
  using sorted_sort_key[of "\<lambda>e. - score (snd e)" xs] by (simp add: sorted_map)

lemma take_dominates_rest:
  assumes "sorted_wrt R xs" and "a \<in> set (take m xs)" and "b \<in> set (drop m xs)"
  shows "R a b"
proof -
  have "sorted_wrt R (take m xs @ drop m xs)" using assms(1) by simp
  then show ?thesis using assms(2,3) unfolding sorted_wrt_append by blast
qed

lemma mset_minus_take: "mset xs - mset (take m xs) = mset (drop m xs)"
proof -
  have "mset xs = mset (take m xs) + mset (drop m xs)"
    by (metis append_take_drop_id mset_append)
  then show ?thesis by simp
qed

subsection \<open>The ranking\<close>

text \<open>
  Claim C4. For \<open>limit \<ge> 0\<close>, \<open>getTopUsers\<close> leaves the state as it is and returns
  entries of the ledger, each at most as often as the ledger has it, in order of
  descending score; it returns \<open>limit\<close> of them, or all when the ledger has fewer, so
  never more than \<open>limit\<close>; every entry it leaves out scores at most as much as every
  entry it returns; and the result is empty when the ledger is empty or \<open>limit\<close> is 0.
\<close>

theorem getTopUsers_ranking:
  assumes "0 \<le> limit"
  shows "snd (getTopUsers limit s) = s
       \<and> sorted_wrt (\<lambda>a b. score (snd b) \<le> score (snd a)) (fst (getTopUsers limit s))
       \<and> length (fst (getTopUsers limit s)) = min (nat limit) (length (points s))
       \<and> length (fst (getTopUsers limit s)) \<le> nat limit
       \<and> mset (fst (getTopUsers limit s)) \<subseteq># mset (points s)
       \<and> (\<forall>a\<in>set (fst (getTopUsers limit s)).
            \<forall>b\<in>#(mset (points s) - mset (fst (getTopUsers limit s))). score (snd b) \<le> score (snd a))
       \<and> (points s = [] \<or> limit = 0 \<longrightarrow> fst (getTopUsers limit s) = [])"
proof -
  let ?S = "sort_key (\<lambda>e. - score (snd e)) (Object_entries (points s))"
  have r: "fst (getTopUsers limit s) = take (nat limit) ?S"
    using assms by (simp add: getTopUsers_def Array_sort_score Array_slice0_nonneg)
  have m: "mset ?S = mset (points s)"
    by (simp add: mset_Object_entries)
  have sorted: "sorted_wrt (\<lambda>a b. score (snd b) \<le> score (snd a)) ?S"
    by (rule sorted_desc_sort_key)
  have len: "length ?S = length (points s)"
    by (simp add: length_Object_entries)
  have sub: "mset (take (nat limit) ?S) \<subseteq># mset (points s)"
    unfolding m[symmetric] by (metis append_take_drop_id mset_append mset_subset_eq_add_left)
  have rest: "mset (points s) - mset (take (nat limit) ?S) = mset (drop (nat limit) ?S)"
    unfolding m[symmetric] by (rule mset_minus_take)
  have top: "score (snd b) \<le> score (snd a)"
    if "a \<in> set (take (nat limit) ?S)" and "b \<in># mset (points s) - mset (take (nat limit) ?S)" for a b
    using take_dominates_rest[OF sorted that(1), of b] that(2) unfolding rest by simp
  have empty: "take (nat limit) ?S = []" if "points s = [] \<or> limit = 0"
    using that len by auto
  show ?thesis
    unfolding r
    using sorted_wrt_take[OF sorted, of "nat limit"] len sub top empty
    by (auto simp: getTopUsers_def)
qed

theorem getTopUsers_ranking_witness:
  "(0 :: int) \<le> 2
   \<and> fst (getTopUsers 2
        \<lparr>points = [(''A'', \<lparr>score = 5, lastClaimedAt = ''''\<rparr>), (''B'', \<lparr>score = 9, lastClaimedAt = ''''\<rparr>),
                   (''C'', \<lparr>score = 9, lastClaimedAt = ''''\<rparr>), (''D'', \<lparr>score = 1, lastClaimedAt = ''''\<rparr>)],
         POINTS_FILE = None, fs_calls = [], prototype_claims = []\<rparr>)
       = [(''B'', \<lparr>score = 9, lastClaimedAt = ''''\<rparr>), (''C'', \<lparr>score = 9, lastClaimedAt = ''''\<rparr>)]
   \<and> length (fst (getTopUsers 2
        \<lparr>points = [(''A'', \<lparr>score = 5, lastClaimedAt = ''''\<rparr>), (''B'', \<lparr>score = 9, lastClaimedAt = ''''\<rparr>),
                   (''C'', \<lparr>score = 9, lastClaimedAt = ''''\<rparr>), (''D'', \<lparr>score = 1, lastClaimedAt = ''''\<rparr>)],
         POINTS_FILE = None, fs_calls = [], prototype_claims = []\<rparr>)) \<le> nat 2
   \<and> sorted_wrt (\<lambda>a b. score (snd b) \<le> score (snd a)) (fst (getTopUsers 2
        \<lparr>points = [(''A'', \<lparr>score = 5, lastClaimedAt = ''''\<rparr>), (''B'', \<lparr>score = 9, lastClaimedAt = ''''\<rparr>),
                   (''C'', \<lparr>score = 9, lastClaimedAt = ''''\<rparr>), (''D'', \<lparr>score = 1, lastClaimedAt = ''''\<rparr>)],
         POINTS_FILE = None, fs_calls = [], prototype_claims = []\<rparr>))"
proof -
  let ?s = "\<lparr>points = [(''A'', \<lparr>score = 5, lastClaimedAt = ''''\<rparr>), (''B'', \<lparr>score = 9, lastClaimedAt = ''''\<rparr>),
                   (''C'', \<lparr>score = 9, lastClaimedAt = ''''\<rparr>), (''D'', \<lparr>score = 1, lastClaimedAt = ''''\<rparr>)],
         POINTS_FILE = None, fs_calls = [], prototype_claims = []\<rparr>"
  have h: "(0 :: int) \<le> 2" by simp
  have v: "fst (getTopUsers 2 ?s)
       = [(''B'', \<lparr>score = 9, lastClaimedAt = ''''\<rparr>), (''C'', \<lparr>score = 9, lastClaimedAt = ''''\<rparr>)]"
    by code_simp
  from getTopUsers_ranking[OF h, of ?s] v h show ?thesis by simp
qed

lemma Object_entries_index_part:
  "[e \<leftarrow> Object_entries ps. arrayIndex (fst e) \<noteq> None]
     = sort_key (\<lambda>e. the (arrayIndex (fst e))) [e \<leftarrow> ps. arrayIndex (fst e) \<noteq> None]"
proof -
  let ?I = "sort_key (\<lambda>e :: string \<times> 'a. the (arrayIndex (fst e))) [e \<leftarrow> ps. arrayIndex (fst e) \<noteq> None]"
  have "[e \<leftarrow> ?I. arrayIndex (fst e) \<noteq> None] = ?I"
    by (simp add: filter_id_conv)
  moreover have "[e \<leftarrow> [e \<leftarrow> ps. arrayIndex (fst e) = None]. arrayIndex (fst e) \<noteq> None] = []"
    by (auto simp: filter_empty_conv)
  ultimately show ?thesis
    unfolding Object_entries_def filter_append by (simp only: append_Nil2)
qed

lemma Object_entries_plain_part:
  "[e \<leftarrow> Object_entries ps. arrayIndex (fst e) = None] = [e \<leftarrow> ps. arrayIndex (fst e) = None]"
  by (simp add: Object_entries_def)

text \<open>
  Claim C10, as the code has it. Among the entries of one score, \<open>getTopUsers\<close> returns
  an initial part of the enumeration of the ledger by \<^verbatim>\<open>Object.entries\<close>, in that
  order. The enumeration lists the identifiers that are array indices first, in
  ascending numeric order, and after them all other identifiers in the order of their
  insertion. So among users of one score whose identifiers are not array indices, the
  one inserted earlier comes earlier.
\<close>

theorem getTopUsers_ties:
  "prefix [e \<leftarrow> fst (getTopUsers limit s). score (snd e) = n]
          [e \<leftarrow> Object_entries (points s). score (snd e) = n]
   \<and> Object_entries (points s)
        = [e \<leftarrow> Object_entries (points s). arrayIndex (fst e) \<noteq> None]
            @ [e \<leftarrow> Object_entries (points s). arrayIndex (fst e) = None]
   \<and> sorted (map (\<lambda>e. the (arrayIndex (fst e)))
               [e \<leftarrow> Object_entries (points s). arrayIndex (fst e) \<noteq> None])
   \<and> [e \<leftarrow> Object_entries (points s). arrayIndex (fst e) = None]
        = [e \<leftarrow> points s. arrayIndex (fst e) = None]
   \<and> prefix [e \<leftarrow> fst (getTopUsers limit s). score (snd e) = n \<and> arrayIndex (fst e) = None]
            [e \<leftarrow> points s. score (snd e) = n \<and> arrayIndex (fst e) = None]"
proof (intro conjI)
  let ?E = "Object_entries (points s)"
  let ?S = "sort_key (\<lambda>e. - score (snd e)) ?E"
  obtain m where r: "fst (getTopUsers limit s) = take m ?S"
    using Array_slice0_take[of limit ?S] by (auto simp: getTopUsers_def Array_sort_score)
  have stable: "[e \<leftarrow> ?S. score (snd e) = n] = [e \<leftarrow> ?E. score (snd e) = n]"
    using sort_key_stable[of "\<lambda>e. - score (snd e)" "- n" ?E] by simp
  have p1: "prefix [e \<leftarrow> take m ?S. score (snd e) = n] [e \<leftarrow> ?E. score (snd e) = n]"
    using filter_take_prefix[of "\<lambda>e. score (snd e) = n" m ?S] by (simp only: stable)
  then show "prefix [e \<leftarrow> fst (getTopUsers limit s). score (snd e) = n] [e \<leftarrow> ?E. score (snd e) = n]"
    by (simp only: r)
  show "?E = [e \<leftarrow> ?E. arrayIndex (fst e) \<noteq> None] @ [e \<leftarrow> ?E. arrayIndex (fst e) = None]"
    unfolding Object_entries_index_part Object_entries_plain_part
    by (simp only: Object_entries_def)
  show "sorted (map (\<lambda>e. the (arrayIndex (fst e))) [e \<leftarrow> ?E. arrayIndex (fst e) \<noteq> None])"
    unfolding Object_entries_index_part by (rule sorted_sort_key)
  show plain: "[e \<leftarrow> ?E. arrayIndex (fst e) = None] = [e \<leftarrow> points s. arrayIndex (fst e) = None]"
    by (rule Object_entries_plain_part)
  have "prefix (filter (\<lambda>e. arrayIndex (fst e) = None) [e \<leftarrow> take m ?S. score (snd e) = n])
               (filter (\<lambda>e. arrayIndex (fst e) = None) [e \<leftarrow> ?E. score (snd e) = n])"
    using p1 by (rule filter_prefix)
  moreover have "filter (\<lambda>e. arrayIndex (fst e) = None) [e \<leftarrow> ?E. score (snd e) = n]
                   = [e \<leftarrow> points s. score (snd e) = n \<and> arrayIndex (fst e) = None]"
  proof -
    have "filter (\<lambda>e. arrayIndex (fst e) = None) [e \<leftarrow> ?E. score (snd e) = n]
            = filter (\<lambda>e. score (snd e) = n) [e \<leftarrow> ?E. arrayIndex (fst e) = None]"
      by (simp add: conj_commute)
    also have "\<dots> = filter (\<lambda>e. score (snd e) = n) [e \<leftarrow> points s. arrayIndex (fst e) = None]"
      by (simp only: plain)
    also have "\<dots> = [e \<leftarrow> points s. score (snd e) = n \<and> arrayIndex (fst e) = None]"
      by (simp add: conj_commute)
    finally show ?thesis .
  qed
  ultimately have "prefix [e \<leftarrow> take m ?S. score (snd e) = n \<and> arrayIndex (fst e) = None]
            [e \<leftarrow> points s. score (snd e) = n \<and> arrayIndex (fst e) = None]"
    by (simp add: conj_commute)
  then show "prefix [e \<leftarrow> fst (getTopUsers limit s). score (snd e) = n \<and> arrayIndex (fst e) = None]
            [e \<leftarrow> points s. score (snd e) = n \<and> arrayIndex (fst e) = None]"
    by (simp only: r)
qed

text \<open>
  Two users with score 0: \<^verbatim>\<open>2\<close> is inserted before \<^verbatim>\<open>1\<close>, and the ranking lists
  \<^verbatim>\<open>1\<close> before \<^verbatim>\<open>2\<close>.
\<close>

theorem getTopUsers_ties_counterexample:
  "points (ensureAll [''2'', ''1''] \<lparr>points = [], POINTS_FILE = None, fs_calls = [], prototype_claims = []\<rparr>)
     = [(''2'', \<lparr>score = 0, lastClaimedAt = ''''\<rparr>), (''1'', \<lparr>score = 0, lastClaimedAt = ''''\<rparr>)]
   \<and> fst (getTopUsers 10 (ensureAll [''2'', ''1''] \<lparr>points = [], POINTS_FILE = None, fs_calls = [], prototype_claims = []\<rparr>))
     = [(''1'', \<lparr>score = 0, lastClaimedAt = ''''\<rparr>), (''2'', \<lparr>score = 0, lastClaimedAt = ''''\<rparr>)]"
  by code_simp

subsection \<open>The parser consumes what it reads\<close>

text \<open>
  The length tests in \<open>parseMembers\<close> and \<open>parseElements\<close> serve the termination proof
  only: a value that is parsed always leaves fewer tokens than there were.
\<close>

lemma parse_shorter:
  "parseValue ts = Some (v, rest) \<Longrightarrow> length rest < length ts"
  "parseMembers acc ts = Some (v, rest) \<Longrightarrow> length rest < length ts"
  "parseElements elems ts = Some (v, rest) \<Longrightarrow> length rest < length ts"
proof (induction ts and acc ts and elems ts arbitrary: v rest and v rest and v rest
    rule: parseValue_parseMembers_parseElements.induct)
  case 1
  then show ?case by simp
next
  case (2 t ts)
  then show ?case
    by (auto split: token.splits list.splits) fastforce+
next
  case (3 acc ts)
  from "3.prems" "3.IH"(2) show ?case
    by (subst (asm) parseMembers.simps)
      (fastforce split: list.splits token.splits option.splits if_splits)
next
  case (4 elems ts)
  from "4.prems" "4.IH"(2) show ?case
    by (subst (asm) parseElements.simps)
      (fastforce split: list.splits token.splits option.splits if_splits)
qed

subsection \<open>Reading back what the serializer writes: characters and numbers\<close>

lemma digits_nonempty: "digits n \<noteq> []"
  by (subst digits.simps) simp

lemma isDigit_digit: "0 \<le> d \<Longrightarrow> d < 10 \<Longrightarrow> isDigit (digit d)"
  by (simp add: isDigit_def digit_def)

lemma digitVal_digit: "0 \<le> d \<Longrightarrow> d < 10 \<Longrightarrow> digitVal (digit d) = d"
  by (simp add: digitVal_def digit_def)

lemma digits_all: "0 \<le> n \<Longrightarrow> list_all isDigit (digits n)"
proof (induction n rule: digits.induct)
  case (1 n)
  show ?case
  proof (cases "n < 10")
    case True
    with "1.prems" show ?thesis
      by (subst digits.simps) (simp add: isDigit_digit)
  next
    case False
    with "1.prems" "1.IH" have "list_all isDigit (digits (n div 10))" by simp
    moreover have "isDigit (digit (n mod 10))" by (simp add: isDigit_digit)
    ultimately show ?thesis
      using False by (subst digits.simps) simp
  qed
qed

lemma readInt_snoc: "readInt (xs @ [c]) = 10 * readInt xs + digitVal c"
  by (simp add: readInt_def)

lemma readInt_digits: "0 \<le> n \<Longrightarrow> readInt (digits n) = n"
proof (induction n rule: digits.induct)
  case (1 n)
  show ?case
  proof (cases "n < 10")
    case True
    with "1.prems" show ?thesis
      by (subst digits.simps) (simp add: readInt_def digitVal_digit)
  next
    case False
    with "1.prems" "1.IH" have "readInt (digits (n div 10)) = n div 10" by simp
    then show ?thesis
      using False by (subst digits.simps) (simp add: readInt_snoc digitVal_digit)
  qed
qed

lemma lexNat_digits:
  assumes "0 \<le> n" and "\<not> isDigit c" and "c \<noteq> CHR ''.''" and "c \<noteq> CHR ''e''" and "c \<noteq> CHR ''E''"
  shows "lexNat (digits n @ c # rest) = Some (n, c # rest)"
proof -
  have all: "\<forall>x\<in>set (digits n). isDigit x"
    using digits_all[OF assms(1)] by (simp add: list_all_iff)
  have t: "takeWhile isDigit (digits n @ c # rest) = digits n"
    using all assms(2) by (simp add: takeWhile_append2)
  have d: "dropWhile isDigit (digits n @ c # rest) = c # rest"
    using all assms(2) by (simp add: dropWhile_append2)
  show ?thesis
    unfolding lexNat_def Let_def t d
    using assms by (simp add: readInt_digits digits_nonempty numberEnd_def)
qed

lemma hexVal_hexDigit: "0 \<le> d \<Longrightarrow> d < 16 \<Longrightarrow> hexVal (hexDigit d) = Some d"
  by (simp add: hexVal_def hexDigit_def)

lemma special_chars_distinct:
  "dquote \<noteq> backslash" "backslash \<noteq> dquote"
  "dquote \<noteq> CHR ''u''" "backslash \<noteq> CHR ''u''"
  "dquote \<noteq> CHR ''/''" "backslash \<noteq> CHR ''/''"
  by (simp_all add: dquote_def backslash_def)

lemma control_chars_distinct:
  "CHR 0x08 \<noteq> dquote" "CHR 0x08 \<noteq> backslash"
  "CHR 0x0C \<noteq> dquote" "CHR 0x0C \<noteq> backslash"
  "CHR 0x0A \<noteq> dquote" "CHR 0x0A \<noteq> backslash"
  "CHR 0x0D \<noteq> dquote" "CHR 0x0D \<noteq> backslash"
  "CHR 0x09 \<noteq> dquote" "CHR 0x09 \<noteq> backslash"
  by (simp_all add: dquote_def backslash_def)

lemma unescapeChar_letters:
  "unescapeChar dquote = Some dquote"
  "unescapeChar backslash = Some backslash"
  "unescapeChar CHR ''b'' = Some (CHR 0x08)"
  "unescapeChar CHR ''f'' = Some (CHR 0x0C)"
  "unescapeChar CHR ''n'' = Some (CHR 0x0A)"
  "unescapeChar CHR ''r'' = Some (CHR 0x0D)"
  "unescapeChar CHR ''t'' = Some (CHR 0x09)"
  by (simp_all add: unescapeChar_def dquote_def backslash_def)

lemma lexString_plain:
  assumes "c \<noteq> dquote" and "c \<noteq> backslash" and "\<not> (of_char c :: int) < 32"
  shows "lexString (c # cs) = consChar c (lexString cs)"
  using assms by simp

lemma lexString_escape:
  assumes "unescapeChar e = Some x" and "e \<noteq> CHR ''u''"
  shows "lexString (backslash # e # cs) = consChar x (lexString cs)"
  using assms by (simp add: special_chars_distinct)

lemma lexString_unicode:
  assumes "unicodeEscape a b c d = Some x"
  shows "lexString (backslash # CHR ''u'' # a # b # c # d # cs) = consChar x (lexString cs)"
  using assms by (simp add: special_chars_distinct)

lemma unicodeEscape_control:
  assumes "(of_char c :: int) < 32"
  shows "unicodeEscape CHR ''0'' CHR ''0'' (hexDigit (of_char c div 16)) (hexDigit (of_char c mod 16)) = Some c"
proof -
  let ?n = "of_char c :: int"
  have n0: "0 \<le> ?n"
    using of_nat_of_char[where ?'a = int, of c, symmetric] by simp
  have h1: "hexVal (hexDigit (?n div 16)) = Some (?n div 16)"
    using assms n0 by (intro hexVal_hexDigit) (auto simp: pos_imp_zdiv_nonneg_iff)
  have h0: "hexVal (hexDigit (?n mod 16)) = Some (?n mod 16)"
    by (intro hexVal_hexDigit) simp_all
  have z: "hexVal CHR ''0'' = Some 0" by (simp add: hexVal_def)
  have "char_of (16 * (?n div 16) + ?n mod 16) = c" by simp
  then show ?thesis
    by (simp add: unicodeEscape_def h1 h0 z)
qed

lemma lexString_escapeChar: "lexString (escapeChar c @ cs) = consChar c (lexString cs)"
proof -
  consider (q) "c = dquote" | (b) "c = backslash"
    | (bs) "c = CHR 0x08" | (ff) "c = CHR 0x0C" | (nl) "c = CHR 0x0A" | (cr) "c = CHR 0x0D"
    | (tab) "c = CHR 0x09"
    | (ctl) "c \<noteq> dquote" "c \<noteq> backslash" "c \<noteq> CHR 0x08" "c \<noteq> CHR 0x0C" "c \<noteq> CHR 0x0A"
        "c \<noteq> CHR 0x0D" "c \<noteq> CHR 0x09" "(of_char c :: int) < 32"
    | (plain) "c \<noteq> dquote" "c \<noteq> backslash" "c \<noteq> CHR 0x08" "c \<noteq> CHR 0x0C" "c \<noteq> CHR 0x0A"
        "c \<noteq> CHR 0x0D" "c \<noteq> CHR 0x09" "\<not> (of_char c :: int) < 32"
    by blast
  then show ?thesis
  proof cases
    case q
    then show ?thesis
      by (simp add: escapeChar_def lexString_escape unescapeChar_letters special_chars_distinct
          del: lexString.simps)
  next
    case b
    then show ?thesis
      by (simp add: escapeChar_def lexString_escape unescapeChar_letters special_chars_distinct
          del: lexString.simps)
  next
    case bs
    then show ?thesis
      by (simp add: escapeChar_def lexString_escape unescapeChar_letters control_chars_distinct
          del: lexString.simps)
  next
    case ff
    then show ?thesis
      by (simp add: escapeChar_def lexString_escape unescapeChar_letters control_chars_distinct
          del: lexString.simps)
  next
    case nl
    then show ?thesis
      by (simp add: escapeChar_def lexString_escape unescapeChar_letters control_chars_distinct
          del: lexString.simps)
  next
    case cr
    then show ?thesis
      by (simp add: escapeChar_def lexString_escape unescapeChar_letters control_chars_distinct
          del: lexString.simps)
  next
    case tab
    then show ?thesis
      by (simp add: escapeChar_def lexString_escape unescapeChar_letters control_chars_distinct
          del: lexString.simps)
  next
    case ctl
    then show ?thesis
      by (simp add: escapeChar_def lexString_unicode unicodeEscape_control del: lexString.simps)
  next
    case plain
    then show ?thesis
      by (simp add: escapeChar_def lexString_plain del: lexString.simps)
  qed
qed

lemma lexString_quoted:
  "lexString (concat (map escapeChar str) @ dquote # rest) = Some (str, rest)"
proof (induction str)
  case Nil
  show ?case by simp
next
  case (Cons c str)
  have "lexString (escapeChar c @ (concat (map escapeChar str) @ dquote # rest))
          = consChar c (lexString (concat (map escapeChar str) @ dquote # rest))"
    by (rule lexString_escapeChar)
  with Cons.IH show ?case by (simp add: consChar_def del: lexString.simps)
qed

subsection \<open>Reading back what the serializer writes: tokens\<close>

lemma tokenize_punctuation:
  "tokenize (CHR '' '' # cs) = tokenize cs"
  "tokenize (newline # cs) = tokenize cs"
  "tokenize (CHR ''{'' # cs) = consToken LBrace (tokenize cs)"
  "tokenize (CHR ''}'' # cs) = consToken RBrace (tokenize cs)"
  "tokenize (CHR '':'' # cs) = consToken Colon (tokenize cs)"
  "tokenize (CHR '','' # cs) = consToken Comma (tokenize cs)"
  by (simp_all add: isWhitespace_def newline_def)

lemma tokenize_dquote:
  "tokenize (dquote # cs) =
     (case lexString cs of None \<Rightarrow> None | Some (str, rest) \<Rightarrow> consToken (TString str) (tokenize rest))"
  by (simp add: isWhitespace_def dquote_def)

lemma tokenize_quoteJSON: "tokenize (quoteJSON str @ rest) = consToken (TString str) (tokenize rest)"
proof -
  have "quoteJSON str @ rest = dquote # (concat (map escapeChar str) @ dquote # rest)"
    by (simp add: quoteJSON_def)
  then show ?thesis
    by (simp only: tokenize_dquote lexString_quoted option.case prod.case)
qed

lemma tokenize_minus:
  "tokenize (CHR ''-'' # cs) =
     (case lexNat cs of None \<Rightarrow> None | Some (n, rest) \<Rightarrow> consToken (TNumber (- n)) (tokenize rest))"
  by (simp add: isWhitespace_def dquote_def)

lemma tokenize_digit:
  assumes "isDigit d"
  shows "tokenize (d # cs) =
     (case lexNat (d # cs) of None \<Rightarrow> None | Some (n, rest) \<Rightarrow> consToken (TNumber n) (tokenize rest))"
proof -
  from assms have "\<not> isWhitespace d" "d \<noteq> CHR ''{''" "d \<noteq> CHR ''}''" "d \<noteq> CHR ''[''" "d \<noteq> CHR '']''"
    "d \<noteq> CHR '':''" "d \<noteq> CHR '',''" "d \<noteq> dquote" "d \<noteq> CHR ''-''"
    by (auto simp: isDigit_def isWhitespace_def dquote_def)
  with assms show ?thesis by simp
qed

lemma separator_ends_number:
  "\<not> isDigit CHR '',''" "CHR '','' \<noteq> CHR ''.''" "CHR '','' \<noteq> CHR ''e''" "CHR '','' \<noteq> CHR ''E''"
  by (simp_all add: isDigit_def)

lemma tokenize_showInt:
  "tokenize (showInt i @ CHR '','' # rest) = consToken (TNumber i) (tokenize (CHR '','' # rest))"
proof (cases "i < 0")
  case True
  then have "lexNat (digits (- i) @ CHR '','' # rest) = Some (- i, CHR '','' # rest)"
    by (intro lexNat_digits separator_ends_number) simp
  with True show ?thesis
    by (simp add: showInt_def tokenize_minus del: tokenize.simps(2))
next
  case False
  then have n: "lexNat (digits i @ CHR '','' # rest) = Some (i, CHR '','' # rest)"
    by (intro lexNat_digits separator_ends_number) simp
  obtain d ds where ds: "digits i = d # ds"
    using digits_nonempty[of i] by (cases "digits i") auto
  have "isDigit d"
    using digits_all[of i] False ds by simp
  then have "tokenize (d # (ds @ CHR '','' # rest))
      = (case lexNat (d # (ds @ CHR '','' # rest)) of None \<Rightarrow> None
         | Some (n, rest') \<Rightarrow> consToken (TNumber n) (tokenize rest'))"
    by (rule tokenize_digit)
  with n ds False show ?thesis
    by (simp add: showInt_def del: tokenize.simps(2))
qed

lemma tokenize_PointData:
  assumes "tokenize rest = Some ts"
  shows "tokenize (stringifyPointData r @ rest) = Some (tokensOfPointData r @ ts)"
  using assms
  by (simp add: stringifyPointData_def tokensOfPointData_def tokenize_punctuation tokenize_quoteJSON
      tokenize_showInt consToken_def del: tokenize.simps(2))

lemma tokenize_Member:
  assumes "tokenize rest = Some ts"
  shows "tokenize (stringifyMember e @ rest) = Some (tokensOfMember e @ ts)"
  using tokenize_PointData[OF assms, of "snd e"]
  by (simp add: stringifyMember_def tokensOfMember_def tokenize_punctuation tokenize_quoteJSON
      consToken_def del: tokenize.simps(2))

lemma tokenize_Members:
  assumes "tokenize rest = Some ts"
  shows "tokenize (stringifyMembers es @ rest) = Some (tokensOfMembers es @ ts)"
proof (induction es rule: stringifyMembers.induct)
  case 1
  show ?case using assms by simp
next
  case (2 e)
  have "tokenize (newline # rest) = Some ts"
    using assms by (simp add: tokenize_punctuation del: tokenize.simps(2))
  from tokenize_Member[OF this, of e] show ?case by simp
next
  case (3 e e' es)
  have "tokenize (CHR '','' # newline # stringifyMembers (e' # es) @ rest)
          = Some (Comma # tokensOfMembers (e' # es) @ ts)"
    using "3.IH" by (simp add: tokenize_punctuation consToken_def del: tokenize.simps(2))
  from tokenize_Member[OF this, of e] show ?case by simp
qed

subsection \<open>Reading back what the serializer writes: values\<close>

lemma parseValue_PointData:
  "parseValue (tokensOfPointData r @ rest) = Some (jsonOfPointData r, rest)"
  by (simp add: tokensOfPointData_def jsonOfPointData_def parseMembers.simps)

lemma length_tokensOfPointData: "length (tokensOfPointData r) = 9"
  by (simp add: tokensOfPointData_def)

lemma tokensOfMembers_Cons:
  "tokensOfMembers (e # es) @ RBrace # rest
     = tokensOfMember e @ (if es = [] then RBrace # rest else Comma # tokensOfMembers es @ RBrace # rest)"
  by (cases es) simp_all

lemma parseMembers_entries:
  assumes "es \<noteq> []" and "distinct (map fst es)" and "\<forall>e\<in>set es. map_of acc (fst e) = None"
  shows "parseMembers acc (tokensOfMembers es @ RBrace # rest)
           = Some (JObject (acc @ map jsonOfMember es), rest)"
  using assms
proof (induction es arbitrary: acc)
  case Nil
  then show ?case by simp
next
  case (Cons e es)
  let ?v = "jsonOfPointData (snd e)"
  have upd: "AList.update (fst e) ?v acc = acc @ [(fst e, ?v)]"
    using Cons.prems(3) by (simp add: update_absent)
  show ?case
  proof (cases "es = []")
    case True
    have "parseMembers acc (TString (fst e) # Colon # tokensOfPointData (snd e) @ RBrace # rest)
            = Some (JObject (AList.update (fst e) ?v acc), rest)"
      by (subst parseMembers.simps) (simp add: parseValue_PointData length_tokensOfPointData)
    with True upd show ?thesis
      by (simp add: tokensOfMember_def jsonOfMember_def)
  next
    case False
    have fresh: "\<forall>e'\<in>set es. map_of (acc @ [(fst e, ?v)]) (fst e') = None"
    proof
      fix e' assume e': "e' \<in> set es"
      then have "fst e' \<in> fst ` set es" by (rule imageI)
      moreover have "fst e \<notin> fst ` set es" using Cons.prems(2) by simp
      ultimately have "fst e' \<noteq> fst e" by metis
      moreover have "map_of acc (fst e') = None" using Cons.prems(3) e' by simp
      ultimately show "map_of (acc @ [(fst e, ?v)]) (fst e') = None"
        by (simp add: map_add_def)
    qed
    have "parseMembers acc
            (TString (fst e) # Colon # tokensOfPointData (snd e) @ Comma # tokensOfMembers es @ RBrace # rest)
            = parseMembers (AList.update (fst e) ?v acc) (tokensOfMembers es @ RBrace # rest)"
      by (subst parseMembers.simps) (simp add: parseValue_PointData length_tokensOfPointData)
    also have "\<dots> = Some (JObject ((acc @ [(fst e, ?v)]) @ map jsonOfMember es), rest)"
      unfolding upd using False Cons.prems(2) fresh by (intro Cons.IH) simp_all
    finally show ?thesis
      using False by (simp add: tokensOfMembers_Cons tokensOfMember_def jsonOfMember_def)
  qed
qed

lemma asPointData_json: "asPointData (jsonOfPointData r) = Some r"
  by (simp add: jsonOfPointData_def)

lemma asPoints_json: "asPoints (JObject (map jsonOfMember es)) = Some es"
  by (induction es) (simp_all add: jsonOfMember_def asPointData_json)

lemma JSON_parse_members:
  assumes "distinct (map fst es)"
  shows "JSON_parse (case es of [] \<Rightarrow> ''{}'' | _ \<Rightarrow> ''{'' @ [newline] @ stringifyMembers es @ ''}'')
           = Some (JObject (map jsonOfMember es))"
proof (cases es)
  case Nil
  have "tokenize ''{}'' = Some [LBrace, RBrace]"
    by (simp add: tokenize_punctuation consToken_def del: tokenize.simps(2))
  with Nil show ?thesis by (simp add: JSON_parse_def)
next
  case (Cons e es')
  have "tokenize ''}'' = Some [RBrace]"
    by (simp add: tokenize_punctuation consToken_def del: tokenize.simps(2))
  from tokenize_Members[OF this, of es]
  have l: "tokenize (''{'' @ [newline] @ stringifyMembers es @ ''}'') = Some (LBrace # tokensOfMembers es @ [RBrace])"
    by (simp add: tokenize_punctuation consToken_def del: tokenize.simps(2))
  obtain t ts where hd: "tokensOfMembers es @ [RBrace] = TString (fst e) # t # ts"
    using Cons by (cases es') (simp_all add: tokensOfMember_def)
  have "parseMembers [] (tokensOfMembers es @ RBrace # []) = Some (JObject ([] @ map jsonOfMember es), [])"
    using assms Cons by (intro parseMembers_entries) simp_all
  then have "parseValue (LBrace # tokensOfMembers es @ [RBrace]) = Some (JObject (map jsonOfMember es), [])"
    using hd by simp
  with l Cons show ?thesis by (simp add: JSON_parse_def)
qed

lemma distinct_Object_entries:
  assumes "distinct (map fst ps)"
  shows "distinct (map fst (Object_entries ps))"
proof -
  have "mset (map fst (Object_entries ps)) = mset (map fst ps)"
    using mset_Object_entries[of ps] by (metis mset_map)
  with assms show ?thesis by (metis mset_eq_imp_distinct_iff)
qed

lemma JSON_parse_stringify:
  assumes "distinct (map fst ps)"
  shows "JSON_parse (JSON_stringify ps) = Some (JObject (map jsonOfMember (Object_entries ps)))"
  unfolding JSON_stringify_def
  using JSON_parse_members[OF distinct_Object_entries[OF assms]]
  by (cases "Object_entries ps") simp_all

subsection \<open>The enumeration order is a normal form\<close>

lemma partition_sort_idem:
  fixes f :: "'a \<Rightarrow> int"
  shows "sort_key f (filter P (sort_key f (filter P xs) @ filter (\<lambda>x. \<not> P x) xs))
           @ filter (\<lambda>x. \<not> P x) (sort_key f (filter P xs) @ filter (\<lambda>x. \<not> P x) xs)
         = sort_key f (filter P xs) @ filter (\<lambda>x. \<not> P x) xs"
proof -
  let ?I = "sort_key f (filter P xs)"
  let ?N = "filter (\<lambda>x. \<not> P x) xs"
  have i1: "filter P ?I = ?I" by (simp add: filter_id_conv)
  have i2: "filter (\<lambda>x. \<not> P x) ?I = []" by (simp add: filter_empty_conv)
  have n1: "filter P ?N = []" by (simp add: filter_empty_conv)
  have n2: "filter (\<lambda>x. \<not> P x) ?N = ?N" by (simp add: filter_id_conv)
  have s: "sort_key f ?I = ?I"
    by (rule sort_key_id_if_sorted) (rule sorted_sort_key)
  show ?thesis
    unfolding filter_append i1 i2 n1 n2 append_Nil2 append_Nil s ..
qed

lemma Object_entries_idem: "Object_entries (Object_entries ps) = Object_entries ps"
  using partition_sort_idem[of "\<lambda>e. the (arrayIndex (fst e))" "\<lambda>e. arrayIndex (fst e) \<noteq> None" ps]
  by (simp add: Object_entries_def)

lemma map_of_Object_entries:
  assumes "distinct (map fst ps)"
  shows "map_of (Object_entries ps) = map_of ps"
  using map_of_inject_set[OF distinct_Object_entries[OF assms] assms]
  by (simp add: set_Object_entries)

lemma JSON_stringify_entries: "JSON_stringify (Object_entries ps) = JSON_stringify ps"
  by (simp add: JSON_stringify_def Object_entries_idem)

lemma getOrCreate_distinct:
  assumes "distinct (map fst (points s))"
  shows "distinct (map fst (points (snd (getOrCreateUserPoints userId s))))"
proof (cases rule: getOrCreate_cases[of s userId])
  case (present r)
  with assms show ?thesis by simp
next
  case (inherited v)
  with assms show ?thesis by simp
next
  case absent
  then have "userId \<notin> fst ` set (points s)"
    by (simp add: map_of_eq_None_iff)
  with assms absent show ?thesis by simp
qed

lemma perform_distinct:
  assumes "distinct (map fst (points s))"
  shows "distinct (map fst (points (perform parseDate c s)))"
proof (cases c)
  case (GetOrCreateUserPoints userId)
  with assms show ?thesis by (simp add: getOrCreate_distinct)
next
  case (TryClaimPoints userId now stamp)
  have d: "distinct (map fst (points (snd (getOrCreateUserPoints userId s))))"
    using assms by (rule getOrCreate_distinct)
  show ?thesis
  proof (cases "\<exists>r. fst (getOrCreateUserPoints userId s) = OwnRecord r")
    case True
    then obtain r where o: "fst (getOrCreateUserPoints userId s) = OwnRecord r"
      by blast
    from d TryClaimPoints show ?thesis
      by (simp add: tryClaim_own[OF o] savePoints_def distinct_update)
  next
    case False
    then have n: "\<And>r. fst (getOrCreateUserPoints userId s) \<noteq> OwnRecord r"
      by blast
    from assms TryClaimPoints show ?thesis
      by (simp add: tryClaim_inherited_points[OF n])
  qed
next
  case (GetTopUsers limit)
  with assms show ?thesis by (simp add: getTopUsers_def)
qed

lemma performAll_distinct:
  "distinct (map fst (points s)) \<Longrightarrow> distinct (map fst (points (performAll parseDate calls s)))"
  unfolding performAll_def
  by (induction calls arbitrary: s) (simp_all add: perform_distinct)

subsection \<open>Every ledger has one entry for each identifier\<close>

lemma parse_distinct:
  "parseValue ts = Some (v, rest) \<Longrightarrow> v = JObject ms \<Longrightarrow> distinct (map fst ms)"
  "parseMembers acc ts = Some (v, rest) \<Longrightarrow> v = JObject ms \<Longrightarrow> distinct (map fst acc)
     \<Longrightarrow> distinct (map fst ms)"
  "parseElements elems ts = Some (v, rest) \<Longrightarrow> v = JObject ms \<Longrightarrow> False"
proof (induction ts and acc ts and elems ts arbitrary: v rest ms and v rest ms and v rest ms
    rule: parseValue_parseMembers_parseElements.induct)
  case 1
  then show ?case by simp
next
  case (2 t ts)
  then show ?case
    by (auto split: token.splits list.splits) fastforce+
next
  case (3 acc ts)
  from "3.prems" "3.IH"(2) show ?case
    by (subst (asm) parseMembers.simps)
      (fastforce simp: distinct_update split: list.splits token.splits option.splits if_splits)
next
  case (4 elems ts)
  from "4.prems" "4.IH"(2) show ?case
    by (subst (asm) parseElements.simps)
      (fastforce split: list.splits token.splits option.splits if_splits)
qed

lemma those_map_fst:
  "those (map (\<lambda>(k, v). map_option (Pair k) (f v)) ms) = Some ps \<Longrightarrow> map fst ps = map fst ms"
  by (induction ms arbitrary: ps) (auto split: option.splits)

lemma asPoints_keys: "asPoints j = Some ps \<Longrightarrow> \<exists>ms. j = JObject ms \<and> map fst ps = map fst ms"
  by (cases j) (auto dest: those_map_fst)

lemma JSON_parse_distinct:
  assumes "JSON_parse text = Some j" and "asPoints j = Some ps"
  shows "distinct (map fst ps)"
proof -
  from assms(2) obtain ms where j: "j = JObject ms" and k: "map fst ps = map fst ms"
    using asPoints_keys by blast
  from assms(1) obtain ts where "parseValue ts = Some (j, [])"
    by (auto simp: JSON_parse_def split: option.splits list.splits)
  then have "distinct (map fst ms)"
    using j by (rule parse_distinct(1))
  with k show ?thesis by simp
qed

lemma new_PointSystem_distinct:
  assumes "new_PointSystem JSON_parse content = Loaded s"
  shows "distinct (map fst (points s))"
proof (cases "content")
  case None
  with assms show ?thesis
    by (auto simp: new_PointSystem_def loadPoints_def Let_def)
next
  case (Some body)
  with assms obtain j ps where "JSON_parse body = Some j" and "asPoints j = Some ps" and "points s = ps"
    by (auto simp: new_PointSystem_def loadPoints_def Let_def split: option.splits)
  then show ?thesis
    using JSON_parse_distinct by blast
qed

subsection \<open>Start-up\<close>

text \<open>
  Claim C8, as the code has it. When \<^verbatim>\<open>points.json\<close> does not exist, the constructor
  returns with the empty ledger. When it exists and \<^verbatim>\<open>JSON.parse\<close> rejects its text, the
  constructor ends with the parser's \<^verbatim>\<open>SyntaxError\<close>. When \<^verbatim>\<open>JSON.parse\<close> accepts the
  text, the constructor returns whatever the value: as the ledger when it has the type
  \<^verbatim>\<open>Points\<close> (negative scores included), and as it is otherwise. No structure is checked.
\<close>

theorem new_PointSystem_outcomes:
  "new_PointSystem parseJSON None = Loaded \<lparr>points = [], POINTS_FILE = None, fs_calls = [ExistsSync], prototype_claims = []\<rparr>
   \<and> (parseJSON text = None \<longrightarrow> new_PointSystem parseJSON (Some text) = Threw SyntaxError)
   \<and> (\<forall>j. parseJSON text = Some j \<longrightarrow>
         new_PointSystem parseJSON (Some text) \<noteq> Threw SyntaxError
         \<and> (\<forall>ps. asPoints j = Some ps \<longrightarrow>
               new_PointSystem parseJSON (Some text)
                 = Loaded \<lparr>points = ps, POINTS_FILE = Some text, fs_calls = [ExistsSync, ReadFileSync], prototype_claims = []\<rparr>)
         \<and> (asPoints j = None \<longrightarrow> new_PointSystem parseJSON (Some text) = LoadedUntyped j))"
  by (auto simp: new_PointSystem_def loadPoints_def Let_def split: option.splits)

lemma JSON_parse_samples:
  "JSON_parse ''{'' = None"
  "JSON_parse ''{}'' = Some (JObject [])"
  by code_simp+

theorem new_PointSystem_outcomes_witness:
  "new_PointSystem JSON_parse (Some ''{'') = Threw SyntaxError
   \<and> new_PointSystem JSON_parse (Some ''{}'')
       = Loaded \<lparr>points = [], POINTS_FILE = Some ''{}'', fs_calls = [ExistsSync, ReadFileSync], prototype_claims = []\<rparr>"
  using new_PointSystem_outcomes[of JSON_parse "''{''"] new_PointSystem_outcomes[of JSON_parse "''{}''"]
  by (simp add: JSON_parse_samples)

text \<open>
  Two snapshots that are valid JSON and not a ledger of the expected structure: an
  array, and a record with the score \<open>-1\<close>. The constructor returns for both; the
  second becomes the ledger.
\<close>

theorem new_PointSystem_counterexample:
  "new_PointSystem JSON_parse (Some ''[]'') = LoadedUntyped (JArray [])
   \<and> new_PointSystem JSON_parse
        (Some (''{'' @ quoteJSON ''7'' @ '':{'' @ quoteJSON ''score'' @ '':-1,''
                 @ quoteJSON ''lastClaimedAt'' @ '':'' @ quoteJSON '''' @ ''}}''))
       = Loaded \<lparr>points = [(''7'', \<lparr>score = - 1, lastClaimedAt = ''''\<rparr>)],
                 POINTS_FILE = Some (''{'' @ quoteJSON ''7'' @ '':{'' @ quoteJSON ''score'' @ '':-1,''
                                       @ quoteJSON ''lastClaimedAt'' @ '':'' @ quoteJSON '''' @ ''}}''),
                 fs_calls = [ExistsSync, ReadFileSync], prototype_claims = []\<rparr>"
  by code_simp

subsection \<open>Saving and loading\<close>

text \<open>
  Claim C9. A ledger is a list of properties with one entry for each identifier: the
  empty ledger is one, a ledger that the constructor loads is one
  (\<open>new_PointSystem_distinct\<close>), and the operations keep it so (\<open>performAll_distinct\<close>).
  For every such ledger, a process that starts on the file \<open>savePoints\<close> has written loads, without
  error, the entries of the saved ledger in their enumeration order: the same
  identifiers, each with the same score and the same claim time. Saving the loaded ledger
  writes the same text again.
\<close>

theorem savePoints_roundtrip:
  assumes "distinct (map fst (points s))"
  shows "new_PointSystem JSON_parse (POINTS_FILE (savePoints s))
           = Loaded \<lparr>points = Object_entries (points s),
                     POINTS_FILE = Some (JSON_stringify (points s)),
                     fs_calls = [ExistsSync, ReadFileSync], prototype_claims = []\<rparr>
       \<and> map_of (Object_entries (points s)) = map_of (points s)
       \<and> JSON_stringify (Object_entries (points s)) = JSON_stringify (points s)"
proof (intro conjI)
  show "new_PointSystem JSON_parse (POINTS_FILE (savePoints s))
           = Loaded \<lparr>points = Object_entries (points s),
                     POINTS_FILE = Some (JSON_stringify (points s)),
                     fs_calls = [ExistsSync, ReadFileSync], prototype_claims = []\<rparr>"
    by (simp add: new_PointSystem_def loadPoints_def savePoints_def Let_def
        JSON_parse_stringify[OF assms] asPoints_json del: asPoints.simps)
  show "map_of (Object_entries (points s)) = map_of (points s)"
    using assms by (rule map_of_Object_entries)
  show "JSON_stringify (Object_entries (points s)) = JSON_stringify (points s)"
    by (rule JSON_stringify_entries)
qed

lemma Object_entries_sample:
  "Object_entries [(''x9'', \<lparr>score = 2, lastClaimedAt = ''2024-01-01T00:00:00.000Z''\<rparr>),
                   (''7'', \<lparr>score = 0, lastClaimedAt = ''''\<rparr>)]
     = [(''7'', \<lparr>score = 0, lastClaimedAt = ''''\<rparr>),
        (''x9'', \<lparr>score = 2, lastClaimedAt = ''2024-01-01T00:00:00.000Z''\<rparr>)]"
  by code_simp

theorem savePoints_roundtrip_witness:
  "distinct (map fst (points
      \<lparr>points = [(''x9'', \<lparr>score = 2, lastClaimedAt = ''2024-01-01T00:00:00.000Z''\<rparr>),
                 (''7'', \<lparr>score = 0, lastClaimedAt = ''''\<rparr>)],
       POINTS_FILE = None, fs_calls = [], prototype_claims = []\<rparr>))
   \<and> new_PointSystem JSON_parse (POINTS_FILE (savePoints
      \<lparr>points = [(''x9'', \<lparr>score = 2, lastClaimedAt = ''2024-01-01T00:00:00.000Z''\<rparr>),
                 (''7'', \<lparr>score = 0, lastClaimedAt = ''''\<rparr>)],
       POINTS_FILE = None, fs_calls = [], prototype_claims = []\<rparr>))
     = Loaded \<lparr>points = [(''7'', \<lparr>score = 0, lastClaimedAt = ''''\<rparr>),
                          (''x9'', \<lparr>score = 2, lastClaimedAt = ''2024-01-01T00:00:00.000Z''\<rparr>)],
               POINTS_FILE = Some (JSON_stringify
                 [(''x9'', \<lparr>score = 2, lastClaimedAt = ''2024-01-01T00:00:00.000Z''\<rparr>),
                  (''7'', \<lparr>score = 0, lastClaimedAt = ''''\<rparr>)]),
               fs_calls = [ExistsSync, ReadFileSync], prototype_claims = []\<rparr>"
proof -
  let ?s = "\<lparr>points = [(''x9'', \<lparr>score = 2, lastClaimedAt = ''2024-01-01T00:00:00.000Z''\<rparr>),
                 (''7'', \<lparr>score = 0, lastClaimedAt = ''''\<rparr>)],
       POINTS_FILE = None, fs_calls = [], prototype_claims = []\<rparr>"
  have h: "distinct (map fst (points ?s))" by simp
  from savePoints_roundtrip[OF h] h show ?thesis
    by (simp add: Object_entries_sample)
qed

subsection \<open>Further properties of the operations\<close>

lemma toISOString_nonempty: "toISOString t \<noteq> ''''"
  by (simp add: toISOString_def Let_def split_beta)

text \<open>
  Creating a record does not touch the file: \<open>getOrCreateUserPoints\<close> makes no call to
  the file system, whether or not it creates a record, and it writes on no inherited
  object.
\<close>

theorem getOrCreateUserPoints_no_io:
  "POINTS_FILE (snd (getOrCreateUserPoints userId s)) = POINTS_FILE s
   \<and> fs_calls (snd (getOrCreateUserPoints userId s)) = fs_calls s
   \<and> prototype_claims (snd (getOrCreateUserPoints userId s)) = prototype_claims s"
  by (rule getOrCreate_env)

lemma tryClaim_refused_state:
  assumes "fst (tryClaimPoints parseDate now stamp userId s) = Returns False"
  shows "snd (tryClaimPoints parseDate now stamp userId s) = snd (getOrCreateUserPoints userId s)"
proof (cases "fst (getOrCreateUserPoints userId s)")
  case (OwnRecord r)
  with assms show ?thesis
    by (cases "canClaimPoints parseDate now (Some (lastClaimedAt r))")
      (simp_all add: tryClaim_own[OF OwnRecord])
next
  case (InheritedObject name)
  then have "\<And>r. fst (getOrCreateUserPoints userId s) \<noteq> OwnRecord r"
    by simp
  then have "snd (getOrCreateUserPoints userId s) = s"
    using getOrCreate_not_own[of userId s] by blast
  with assms show ?thesis
    by (cases "canClaimPoints parseDate now (lastClaimedAtOf s (InheritedObject name))")
      (simp_all add: tryClaim_object[OF InheritedObject])
next
  case (InheritedString str)
  then have "\<And>r. fst (getOrCreateUserPoints userId s) \<noteq> OwnRecord r"
    by simp
  then have "snd (getOrCreateUserPoints userId s) = s"
    using getOrCreate_not_own[of userId s] by blast
  with assms show ?thesis
    by (cases "canClaimPoints parseDate now (map_of (prototype_claims s) ''__proto__'')")
      (simp_all add: tryClaim_string[OF InheritedString])
qed

text \<open>
  A refused claim makes no call to the file system and changes no record that exists,
  for every user; the one change it can make to the ledger is the new record of a user
  seen for the first time.
\<close>

theorem tryClaimPoints_refused:
  assumes "fst (tryClaimPoints parseDate now stamp userId s) = Returns False"
  shows "POINTS_FILE (snd (tryClaimPoints parseDate now stamp userId s)) = POINTS_FILE s
       \<and> fs_calls (snd (tryClaimPoints parseDate now stamp userId s)) = fs_calls s
       \<and> snd (tryClaimPoints parseDate now stamp userId s) = snd (getOrCreateUserPoints userId s)
       \<and> (\<forall>k r. map_of (points s) k = Some r \<longrightarrow>
             map_of (points (snd (tryClaimPoints parseDate now stamp userId s))) k = Some r)"
  by (simp add: tryClaim_refused_state[OF assms] getOrCreate_env getOrCreate_keeps)

theorem tryClaimPoints_refused_witness:
  "fst (tryClaimPoints Date_parse 1704067200001 1704067200002 ''41''
        \<lparr>points = [(''41'', \<lparr>score = 3, lastClaimedAt = ''2024-01-01T00:00:00.000Z''\<rparr>)],
         POINTS_FILE = None, fs_calls = [], prototype_claims = []\<rparr>) = Returns False
   \<and> fs_calls (snd (tryClaimPoints Date_parse 1704067200001 1704067200002 ''41''
        \<lparr>points = [(''41'', \<lparr>score = 3, lastClaimedAt = ''2024-01-01T00:00:00.000Z''\<rparr>)],
         POINTS_FILE = None, fs_calls = [], prototype_claims = []\<rparr>)) = []"
proof -
  have h: "fst (tryClaimPoints Date_parse 1704067200001 1704067200002 ''41''
        \<lparr>points = [(''41'', \<lparr>score = 3, lastClaimedAt = ''2024-01-01T00:00:00.000Z''\<rparr>)],
         POINTS_FILE = None, fs_calls = [], prototype_claims = []\<rparr>) = Returns False"
    by code_simp
  from tryClaimPoints_refused[OF h] h show ?thesis by (simp add: getOrCreate_env)
qed

text \<open>
  A record whose claim time is a non-empty string that the platform cannot read as a
  date is never eligible: the invalid date has the time value NaN, every comparison
  with it is false, and \<open>tryClaimPoints\<close> returns \<open>False\<close> at every reading of the clock.
\<close>

theorem tryClaimPoints_unreadable_time:
  assumes "map_of (points s) userId = Some r"
    and "lastClaimedAt r \<noteq> ''''"
    and "parseDate (lastClaimedAt r) = None"
  shows "tryClaimPoints parseDate now stamp userId s = (Returns False, s)"
proof -
  have g: "getOrCreateUserPoints userId s = (OwnRecord r, s)"
    using assms(1) by (rule getOrCreate_present)
  then have o: "fst (getOrCreateUserPoints userId s) = OwnRecord r"
    by simp
  have "\<not> canClaimPoints parseDate now (Some (lastClaimedAt r))"
    using assms(2,3) by (rule canClaim_invalid)
  then show ?thesis
    by (simp add: tryClaim_own[OF o] g)
qed

lemma Date_parse_yesterday: "Date_parse ''yesterday'' = None"
  by code_simp

theorem tryClaimPoints_unreadable_time_witness:
  "tryClaimPoints Date_parse 1704067200000 1704067200000 ''41''
     \<lparr>points = [(''41'', \<lparr>score = 3, lastClaimedAt = ''yesterday''\<rparr>)],
      POINTS_FILE = None, fs_calls = [], prototype_claims = []\<rparr>
   = (Returns False,
      \<lparr>points = [(''41'', \<lparr>score = 3, lastClaimedAt = ''yesterday''\<rparr>)],
       POINTS_FILE = None, fs_calls = [], prototype_claims = []\<rparr>)"
proof -
  let ?s = "\<lparr>points = [(''41'', \<lparr>score = 3, lastClaimedAt = ''yesterday''\<rparr>)],
             POINTS_FILE = None, fs_calls = [], prototype_claims = []\<rparr>"
  let ?r = "\<lparr>score = 3, lastClaimedAt = ''yesterday''\<rparr>"
  have h1: "map_of (points ?s) ''41'' = Some ?r" by simp
  have h2: "lastClaimedAt ?r \<noteq> ''''" by simp
  have h3: "Date_parse (lastClaimedAt ?r) = None" by (simp add: Date_parse_yesterday)
  show ?thesis
    using tryClaimPoints_unreadable_time[of ?s "''41''" ?r Date_parse 1704067200000 1704067200000,
        OF h1 h2 h3]
    by simp
qed

text \<open>
  The cooldown runs from the stamp of the last successful claim. If a claim succeeds
  with the stamp \<open>stamp1\<close>, and the platform reads the ISO form of \<open>stamp1\<close> back as
  \<open>stamp1\<close>, then the next call for the same identifier succeeds exactly when its clock
  reads at least 24 hours more than \<open>stamp1\<close>. This holds for every identifier, also
  for one that names an inherited object.
\<close>

lemma inheritedTruthy_object:
  assumes "inheritedTruthy s userId = Some (InheritedObject name)"
  shows "name = userId \<and> userId \<in> set Object_prototype_names"
  using assms by (auto simp: inheritedTruthy_def split: if_splits option.splits)

theorem tryClaimPoints_consecutive:
  assumes "fst (tryClaimPoints parseDate now1 stamp1 userId s) = Returns True"
    and "parseDate (toISOString stamp1) = Some stamp1"
  shows "fst (tryClaimPoints parseDate now2 stamp2 userId
                (snd (tryClaimPoints parseDate now1 stamp1 userId s)))
           = Returns (24 * 60 * 60 * 1000 \<le> now2 - stamp1)"
proof -
  let ?s' = "snd (tryClaimPoints parseDate now1 stamp1 userId s)"
  have c: "canClaimPoints parseDate now2 (Some (toISOString stamp1)) = (86400000 \<le> now2 - stamp1)"
    using canClaim_set[of "toISOString stamp1" parseDate stamp1 now2] assms(2)
    by (simp add: toISOString_nonempty)
  show ?thesis
  proof (cases "fst (getOrCreateUserPoints userId s)")
    case (OwnRecord r)
    let ?r' = "r\<lparr>score := score r + 1, lastClaimedAt := toISOString stamp1\<rparr>"
    from assms(1) have e: "canClaimPoints parseDate now1 (Some (lastClaimedAt r))"
      by (cases "canClaimPoints parseDate now1 (Some (lastClaimedAt r))")
        (simp_all add: tryClaim_own[OF OwnRecord])
    have "map_of (points ?s') userId = Some ?r'"
      by (simp add: tryClaim_own_lookup[OF OwnRecord e])
    then have "getOrCreateUserPoints userId ?s' = (OwnRecord ?r', ?s')"
      by (rule getOrCreate_present)
    then have o': "fst (getOrCreateUserPoints userId ?s') = OwnRecord ?r'"
      by simp
    show ?thesis
      using c by (simp add: tryClaim_own[OF o'])
  next
    case (InheritedObject name)
    then have n: "\<And>r. fst (getOrCreateUserPoints userId s) \<noteq> OwnRecord r"
      by simp
    note g = getOrCreate_not_own[OF n]
    from g InheritedObject have i: "inheritedTruthy s userId = Some (InheritedObject name)"
      by simp
    then have nm: "name = userId" and mem: "userId \<in> set Object_prototype_names"
      using inheritedTruthy_object[of s userId name] by simp_all
    from assms(1) have e: "canClaimPoints parseDate now1 (lastClaimedAtOf s (InheritedObject name))"
      by (cases "canClaimPoints parseDate now1 (lastClaimedAtOf s (InheritedObject name))")
        (simp_all add: tryClaim_object[OF InheritedObject])
    then have s': "?s' = savePoints
                       (s\<lparr>prototype_claims :=
                            AList.update name (toISOString stamp1) (prototype_claims s)\<rparr>)"
      by (simp add: tryClaim_object[OF InheritedObject])
    have p: "map_of (points ?s') userId = None"
      using g by (simp add: s' savePoints_def)
    have "inheritedTruthy ?s' userId = Some (InheritedObject userId)"
      using mem by (simp add: inheritedTruthy_def)
    with p have "getOrCreateUserPoints userId ?s' = (InheritedObject userId, ?s')"
      by (rule getOrCreate_inherited)
    then have o': "fst (getOrCreateUserPoints userId ?s') = InheritedObject userId"
      by simp
    have "lastClaimedAtOf ?s' (InheritedObject userId) = Some (toISOString stamp1)"
      by (simp add: s' savePoints_def nm update_conv')
    then show ?thesis
      using c by (simp add: tryClaim_object[OF o'])
  next
    case (InheritedString str)
    with assms(1) show ?thesis
      by (cases "canClaimPoints parseDate now1 (map_of (prototype_claims s) ''__proto__'')")
        (simp_all add: tryClaim_string[OF InheritedString])
  qed
qed

lemma Date_parse_toISOString_2024: "Date_parse (toISOString 1704067200001) = Some 1704067200001"
  by code_simp

theorem tryClaimPoints_consecutive_witness:
  "fst (tryClaimPoints Date_parse 1704067200000 1704067200001 ''42''
          \<lparr>points = [], POINTS_FILE = None, fs_calls = [], prototype_claims = []\<rparr>) = Returns True
   \<and> fst (tryClaimPoints Date_parse 1704153600000 1704153600000 ''42''
            (snd (tryClaimPoints Date_parse 1704067200000 1704067200001 ''42''
                    \<lparr>points = [], POINTS_FILE = None, fs_calls = [], prototype_claims = []\<rparr>)))
       = Returns False
   \<and> fst (tryClaimPoints Date_parse 1704153600001 1704153600001 ''42''
            (snd (tryClaimPoints Date_parse 1704067200000 1704067200001 ''42''
                    \<lparr>points = [], POINTS_FILE = None, fs_calls = [], prototype_claims = []\<rparr>)))
       = Returns True"
proof -
  let ?s = "\<lparr>points = [], POINTS_FILE = None, fs_calls = [], prototype_claims = []\<rparr>"
  have h1: "fst (tryClaimPoints Date_parse 1704067200000 1704067200001 ''42'' ?s) = Returns True"
    by code_simp
  note h2 = Date_parse_toISOString_2024
  show ?thesis
    using h1 tryClaimPoints_consecutive[of Date_parse 1704067200000 1704067200001 "''42''" ?s
        1704153600000 1704153600000, OF h1 h2]
      tryClaimPoints_consecutive[of Date_parse 1704067200000 1704067200001 "''42''" ?s
        1704153600001 1704153600001, OF h1 h2]
    by simp
qed

subsection \<open>Identifiers that name inherited properties\<close>

text \<open>
  A claim under the name of a member of \<^verbatim>\<open>Object.prototype\<close>, made when the ledger has
  no record of its own under that name, the inherited object carries no claim time and
  the clock reads 24 hours or more past the epoch: the call returns \<open>True\<close> and writes
  the file, and the ledger is as it was. No record is stored under the name; the claim
  time is set on the inherited object, whose score is then NaN.
\<close>

theorem tryClaimPoints_inherited_name:
  assumes "map_of (points s) userId = None"
    and "userId \<in> set Object_prototype_names"
    and "lastClaimedAtOf s (InheritedObject userId) = None"
    and "24 * 60 * 60 * 1000 \<le> now"
  shows "tryClaimPoints parseDate now stamp userId s =
           (Returns True,
            savePoints
              (s\<lparr>prototype_claims :=
                   AList.update userId (toISOString stamp) (prototype_claims s)\<rparr>))
       \<and> points (snd (tryClaimPoints parseDate now stamp userId s)) = points s
       \<and> map_of (points (snd (tryClaimPoints parseDate now stamp userId s))) userId = None"
proof -
  have "inheritedTruthy s userId = Some (InheritedObject userId)"
    using assms(2) by (simp add: inheritedTruthy_def)
  with assms(1) have "getOrCreateUserPoints userId s = (InheritedObject userId, s)"
    by (rule getOrCreate_inherited)
  then have o: "fst (getOrCreateUserPoints userId s) = InheritedObject userId"
    by simp
  have e: "canClaimPoints parseDate now (lastClaimedAtOf s (InheritedObject userId))"
    using assms(3,4) by (simp add: canClaim_undefined)
  have t: "tryClaimPoints parseDate now stamp userId s =
           (Returns True,
            savePoints
              (s\<lparr>prototype_claims :=
                   AList.update userId (toISOString stamp) (prototype_claims s)\<rparr>))"
    using e by (simp add: tryClaim_object[OF o])
  show ?thesis
    using assms(1) by (simp add: t savePoints_def)
qed

theorem tryClaimPoints_inherited_name_witness:
  "tryClaimPoints Date_parse 1704067200000 1704067200000 ''toString''
     \<lparr>points = [], POINTS_FILE = None, fs_calls = [], prototype_claims = []\<rparr>
     = (Returns True,
        \<lparr>points = [], POINTS_FILE = Some ''{}'', fs_calls = [WriteFileSync ''{}''],
         prototype_claims = [(''toString'', ''2024-01-01T00:00:00.000Z'')]\<rparr>)"
proof -
  let ?s = "\<lparr>points = [], POINTS_FILE = None, fs_calls = [], prototype_claims = []\<rparr>"
  have h1: "map_of (points ?s) ''toString'' = None" by simp
  have h2: "''toString'' \<in> set Object_prototype_names" by (simp add: Object_prototype_names_def)
  have h3: "lastClaimedAtOf ?s (InheritedObject ''toString'') = None" by simp
  have h4: "24 * 60 * 60 * 1000 \<le> (1704067200000 :: int)" by simp
  have i: "toISOString 1704067200000 = ''2024-01-01T00:00:00.000Z''" by code_simp
  have j: "JSON_stringify [] = ''{}''" by code_simp
  show ?thesis
    using tryClaimPoints_inherited_name[of ?s "''toString''" 1704067200000 Date_parse 1704067200000,
        OF h1 h2 h3 h4]
    by (simp add: savePoints_def i j)
qed

text \<open>
  A claim under \<^verbatim>\<open>__proto__\<close> writes on \<^verbatim>\<open>Object.prototype\<close> itself. From then on the
  identifier \<^verbatim>\<open>lastClaimedAt\<close> resolves to the string written there: \<open>getOrCreateUserPoints\<close>
  returns it, and a claim under it ends in a \<^verbatim>\<open>TypeError\<close> once the cooldown of the
  first claim is over. The identifier \<^verbatim>\<open>score\<close> resolves to NaN, which is falsy, and
  gets a record.
\<close>

theorem tryClaimPoints_prototype_example:
  "tryClaimPoints Date_parse 1704067200000 1704067200000 ''__proto__''
     \<lparr>points = [], POINTS_FILE = None, fs_calls = [], prototype_claims = []\<rparr>
     = (Returns True,
        \<lparr>points = [], POINTS_FILE = Some ''{}'', fs_calls = [WriteFileSync ''{}''],
         prototype_claims = [(''__proto__'', ''2024-01-01T00:00:00.000Z'')]\<rparr>)
   \<and> fst (getOrCreateUserPoints ''lastClaimedAt''
        \<lparr>points = [], POINTS_FILE = Some ''{}'', fs_calls = [WriteFileSync ''{}''],
         prototype_claims = [(''__proto__'', ''2024-01-01T00:00:00.000Z'')]\<rparr>)
       = InheritedString ''2024-01-01T00:00:00.000Z''
   \<and> tryClaimPoints Date_parse 1704153600000 1704153600000 ''lastClaimedAt''
        \<lparr>points = [], POINTS_FILE = Some ''{}'', fs_calls = [WriteFileSync ''{}''],
         prototype_claims = [(''__proto__'', ''2024-01-01T00:00:00.000Z'')]\<rparr>
       = (Throws TypeError,
          \<lparr>points = [], POINTS_FILE = Some ''{}'', fs_calls = [WriteFileSync ''{}''],
           prototype_claims = [(''__proto__'', ''2024-01-01T00:00:00.000Z'')]\<rparr>)
   \<and> fst (getOrCreateUserPoints ''score''
        \<lparr>points = [], POINTS_FILE = Some ''{}'', fs_calls = [WriteFileSync ''{}''],
         prototype_claims = [(''__proto__'', ''2024-01-01T00:00:00.000Z'')]\<rparr>)
       = OwnRecord \<lparr>score = 0, lastClaimedAt = ''''\<rparr>"
  by code_simp

end
